theory Spec2Isabelle
  imports Complex_Main
begin

unbundle bit_operations_syntax

section \<open>Data model of \<open>CoherentUnit\<close> (qregister.cpp)\<close>

text \<open>
  The register class of qregister.cpp is embedded as a record. The header qregister.hpp,
  which declares the class and the integer types, is not among the sources at hand:
  permutation indices (\<open>bitCapInt\<close>) and bit positions (\<open>bitLenInt\<close>) are natural
  numbers here. The source computes its masks with \<open>1 << k\<close> on \<open>int\<close>, which is
  \<open>push_bit k 1\<close> here and agrees with the machine as long as the shift stays below the
  width of \<open>int\<close>, that is for units of at most 30 qubits (\<open>inRange\<close> below).
  \<open>Complex16\<close> and \<open>double\<close> are the complex and real numbers: rounding is not part of
  the model, and a statement about amplitudes is a statement about the exact arithmetic
  that the floating point code approximates.

  The shared random engine is a tape of the draws still to come, each one a value of
  \<open>rand_distribution(0.0, 1.0)\<close>; \<open>Rand\<close> reads the head of the tape and advances it.
\<close>

datatype error = InvalidArgument

record CoherentUnit =
  qubitCount :: nat
  maxQPower :: nat
  stateVec :: "complex list"
  runningNorm :: real
  randTape :: "nat \<Rightarrow> real"

text \<open>
  A method that can throw returns \<open>Inl (e, u)\<close>, the exception together with the unit as
  the method left it when the exception propagated, or \<open>Inr (r, u)\<close>, the returned value and
  the unit on return.
\<close>

type_synonym 'r outcome = "(error \<times> CoherentUnit) + ('r \<times> CoherentUnit)"

definition inRange :: "CoherentUnit \<Rightarrow> bool" where
  "inRange u \<longleftrightarrow>
     qubitCount u \<le> 30 \<and> maxQPower u = 2 ^ qubitCount u \<and> length (stateVec u) = maxQPower u"

definition Rand :: "CoherentUnit \<Rightarrow> real \<times> CoherentUnit" where
  "Rand u = (randTape u 0, u\<lparr>randTape := (\<lambda>n. randTape u (Suc n))\<rparr>)"

definition ResetStateVec :: "complex list \<Rightarrow> CoherentUnit \<Rightarrow> CoherentUnit" where
  "ResetStateVec nStateVec u = u\<lparr>stateVec := nStateVec\<rparr>"

section \<open>Parallel iteration\<close>

text \<open>
  \<open>par_for_inc\<close> hands the counters \<open>begin, begin + 1, ...\<close> to the workers; a worker
  maps its counter through \<open>inc\<close> and stops at the first image that reaches \<open>end\<close>. The
  bodies write disjoint cells, so the model runs them one after the other in the order of
  the counter, on the state \<open>'s\<close> that the lambda of the source captures by reference.
\<close>

definition par_for_inc :: "nat \<Rightarrow> nat \<Rightarrow> (nat \<Rightarrow> nat) \<Rightarrow> (nat \<Rightarrow> 's \<Rightarrow> 's) \<Rightarrow> 's \<Rightarrow> 's" where
  "par_for_inc begin end inc fn s =
     fold fn (takeWhile (\<lambda>i. i < end) (map inc [begin..<end])) s"

definition par_for :: "nat \<Rightarrow> nat \<Rightarrow> (nat \<Rightarrow> 's \<Rightarrow> 's) \<Rightarrow> 's \<Rightarrow> 's" where
  "par_for begin end fn s = par_for_inc begin end (\<lambda>i. i) fn s"

section \<open>Unsigned addition and subtraction on a register\<close>

text \<open>
  \<open>lengthPower = 1 << length\<close> and the two masks are shifts on \<open>int\<close> in the source;
  \<open>INC\<close> and \<open>DEC\<close> below compute what the source computes for lengths and qubit counts
  up to 30, and every statement about them carries that bound.
\<close>

definition INC :: "nat \<Rightarrow> nat \<Rightarrow> nat \<Rightarrow> CoherentUnit \<Rightarrow> CoherentUnit" where
  "INC toAdd0 start len u =
     (let lengthPower = push_bit len (1::nat);
          toAdd = toAdd0 mod lengthPower
      in if len > 0 \<and> toAdd > 0 then
           (let otherMask0 = push_bit (qubitCount u) (1::nat) - 1;
                inOutMask = push_bit start (lengthPower - 1);
                otherMask = otherMask0 XOR inOutMask;
                nStateVec0 = replicate (maxQPower u) (0::complex);
                nStateVec = par_for 0 (maxQPower u) (\<lambda>lcv nsv.
                  (let otherRes = lcv AND otherMask;
                       inOutRes = lcv AND inOutMask;
                       inOutInt = drop_bit start inOutRes;
                       outInt = inOutInt + toAdd;
                       outRes = (if outInt < lengthPower then push_bit start outInt OR otherRes
                                 else push_bit start (outInt - lengthPower) OR otherRes)
                   in nsv[outRes := stateVec u ! lcv])) nStateVec0
            in ResetStateVec nStateVec u)
         else u)"

definition DEC :: "nat \<Rightarrow> nat \<Rightarrow> nat \<Rightarrow> CoherentUnit \<Rightarrow> CoherentUnit" where
  "DEC toSub0 start len u =
     (let lengthPower = push_bit len (1::nat);
          toSub = toSub0 mod lengthPower
      in if len > 0 \<and> toSub > 0 then
           (let otherMask0 = push_bit (qubitCount u) (1::nat) - 1;
                inOutMask = push_bit start (lengthPower - 1);
                otherMask = otherMask0 XOR inOutMask;
                nStateVec0 = replicate (maxQPower u) (0::complex);
                nStateVec = par_for 0 (maxQPower u) (\<lambda>lcv nsv.
                  (let otherRes = lcv AND otherMask;
                       inOutRes = lcv AND inOutMask;
                       inOutInt = drop_bit start inOutRes;
                       outInt = inOutInt + lengthPower - toSub;
                       outRes = (if outInt < lengthPower then push_bit start outInt OR otherRes
                                 else push_bit start (outInt - lengthPower) OR otherRes)
                   in nsv[outRes := stateVec u ! lcv])) nStateVec0
            in ResetStateVec nStateVec u)
         else u)"

section \<open>Norm bookkeeping\<close>

text \<open>\<open>norm\<close> of \<open>Complex16\<close>: the squared magnitude \<open>re\<^sup>2 + im\<^sup>2\<close>.\<close>

definition norm_amp :: "complex \<Rightarrow> real" where
  "norm_amp z = Re z * Re z + Im z * Im z"

text \<open>
  \<open>par_norm\<close> adds the squared magnitudes in per-worker partial sums and returns the square
  root of their total; over the reals the grouping of the sum does not matter.
\<close>

definition par_norm :: "nat \<Rightarrow> complex list \<Rightarrow> real" where
  "par_norm maxQPower' stateArray =
     sqrt (fold (\<lambda>i sqrNorm. sqrNorm + norm_amp (stateArray ! i)) [0..<maxQPower'] 0)"

definition UpdateRunningNorm :: "CoherentUnit \<Rightarrow> CoherentUnit" where
  "UpdateRunningNorm u = u\<lparr>runningNorm := par_norm (maxQPower u) (stateVec u)\<rparr>"

definition NormalizeState :: "CoherentUnit \<Rightarrow> CoherentUnit" where
  "NormalizeState u =
     (let sv = par_for 0 (maxQPower u) (\<lambda>lcv sv.
                 (let a = sv ! lcv / complex_of_real (runningNorm u)
                  in sv[lcv := (if norm_amp a < 1 / 10 ^ 15 then 0 else a)])) (stateVec u)
      in u\<lparr>stateVec := sv, runningNorm := 1\<rparr>)"

section \<open>Probability and measurement of one qubit\<close>

definition Prob :: "nat \<Rightarrow> CoherentUnit \<Rightarrow> real \<times> CoherentUnit" where
  "Prob qubitIndex u0 =
     (let u = (if runningNorm u0 \<noteq> 1 then NormalizeState u0 else u0);
          qPower = push_bit qubitIndex (1::nat);
          oneChance = fold (\<lambda>lcv oneChance.
                        if lcv AND qPower = qPower then oneChance + norm_amp (stateVec u ! lcv)
                        else oneChance) [0..<maxQPower u] 0
      in (oneChance, u))"

definition M :: "nat \<Rightarrow> CoherentUnit \<Rightarrow> bool \<times> CoherentUnit" where
  "M qubitIndex u0 =
     (let u1 = (if runningNorm u0 \<noteq> 1 then NormalizeState u0 else u0);
          (prob, u2) = Rand u1;
          (r, u3) = Rand u2;
          angle = r * 2 * pi;
          cosine = cos angle;
          sine = sin angle;
          qPowers = push_bit qubitIndex (1::nat);
          (oneChance, u4) = Prob qubitIndex u3;
          result = (prob < oneChance \<and> oneChance > 0)
      in if result then
           (let nrmlzr = (if oneChance > 0 then oneChance else 1);
                nrm = Complex cosine sine / complex_of_real nrmlzr;
                sv = par_for 0 (maxQPower u4) (\<lambda>lcv sv.
                       if lcv AND qPowers = 0 then sv[lcv := 0]
                       else sv[lcv := nrm * sv ! lcv]) (stateVec u4)
            in (result, UpdateRunningNorm (u4\<lparr>stateVec := sv\<rparr>)))
         else
           (let nrmlzr = (if oneChance < 1 then sqrt (1 - oneChance) else 1);
                nrm = Complex cosine sine / complex_of_real nrmlzr;
                sv = par_for 0 (maxQPower u4) (\<lambda>lcv sv.
                       if lcv AND qPowers = 0 then sv[lcv := nrm * sv ! lcv]
                       else sv[lcv := 0]) (stateVec u4)
            in (result, UpdateRunningNorm (u4\<lparr>stateVec := sv\<rparr>))))"

section \<open>The 2x2 kernel and the gates built on it\<close>

text \<open>
  Modelled from the spec: \<open>Apply2x2\<close> is declared in qregister.hpp and defined outside the
  files at hand. Section 4.C of the specification gives its contract: for every index \<open>k\<close>
  obtained from a counter over the \<open>2 ^ (n - bitCount)\<close> settings of the other bits by
  inserting a zero at each position of \<open>sortedPowers\<close>, from low to high, the amplitudes
  \<open>a\<close> and \<open>b\<close> at \<open>k | offset1\<close> and \<open>k | offset2\<close> are replaced by
  \<open>mtrx[0] a + mtrx[1] b\<close> and \<open>mtrx[2] a + mtrx[3] b\<close>; with \<open>doCalcNorm\<close> the squared
  magnitudes of the amplitudes written are accumulated into \<open>runningNorm\<close>, and without it
  \<open>runningNorm\<close> is left as it is. The contract names no failure.
\<close>

definition insertZero :: "nat \<Rightarrow> nat \<Rightarrow> nat" where
  "insertZero qPower c = (c div qPower) * (2 * qPower) + c mod qPower"

definition Apply2x2 ::
  "nat \<Rightarrow> nat \<Rightarrow> complex list \<Rightarrow> nat \<Rightarrow> nat list \<Rightarrow> bool \<Rightarrow> bool \<Rightarrow> CoherentUnit \<Rightarrow> CoherentUnit" where
  "Apply2x2 offset1 offset2 mtrx bitCount sortedPowers runningNormOnly doCalcNorm u =
     (let ks = map (\<lambda>c. fold insertZero (take bitCount sortedPowers) c)
                 [0..<2 ^ (qubitCount u - bitCount)];
          (sv, nrmSqr) = fold (\<lambda>k (sv, nrmSqr).
                 (let a = sv ! (k OR offset1);
                      b = sv ! (k OR offset2);
                      na = mtrx ! 0 * a + mtrx ! 1 * b;
                      nb = mtrx ! 2 * a + mtrx ! 3 * b
                  in (sv[k OR offset1 := na, k OR offset2 := nb],
                      nrmSqr + norm_amp na + norm_amp nb))) ks (stateVec u, 0)
      in if doCalcNorm then u\<lparr>stateVec := sv, runningNorm := sqrt nrmSqr\<rparr>
         else u\<lparr>stateVec := sv\<rparr>)"

definition ApplySingleBit :: "nat \<Rightarrow> complex list \<Rightarrow> bool \<Rightarrow> CoherentUnit \<Rightarrow> CoherentUnit" where
  "ApplySingleBit qubitIndex mtrx doCalcNorm u =
     (let qPowers = [push_bit qubitIndex (1::nat)]
      in Apply2x2 0 (qPowers ! 0) mtrx 1 qPowers True doCalcNorm u)"

definition ApplyControlled2x2 ::
  "nat \<Rightarrow> nat \<Rightarrow> complex list \<Rightarrow> bool \<Rightarrow> CoherentUnit \<Rightarrow> CoherentUnit" where
  "ApplyControlled2x2 control target mtrx doCalcNorm u =
     (let qPowers1 = push_bit control (1::nat);
          qPowers2 = push_bit target (1::nat);
          qPowers0 = qPowers1 + qPowers2;
          qPowersSorted = sort [qPowers1, qPowers2]
      in Apply2x2 qPowers0 qPowers1 mtrx 2 qPowersSorted False doCalcNorm u)"

definition ApplyAntiControlled2x2 ::
  "nat \<Rightarrow> nat \<Rightarrow> complex list \<Rightarrow> bool \<Rightarrow> CoherentUnit \<Rightarrow> CoherentUnit" where
  "ApplyAntiControlled2x2 control target mtrx doCalcNorm u =
     (let qPowers1 = push_bit control (1::nat);
          qPowers2 = push_bit target (1::nat);
          qPowersSorted = sort [qPowers1, qPowers2]
      in Apply2x2 0 qPowers2 mtrx 2 qPowersSorted False doCalcNorm u)"

definition pauliX :: "complex list" where
  "pauliX = [Complex 0 0, Complex 1 0, Complex 1 0, Complex 0 0]"

definition X :: "nat \<Rightarrow> CoherentUnit \<Rightarrow> CoherentUnit" where
  "X qubitIndex u = ApplySingleBit qubitIndex pauliX False u"

definition SetBit :: "nat \<Rightarrow> bool \<Rightarrow> CoherentUnit \<Rightarrow> CoherentUnit" where
  "SetBit qubitIndex1 val u =
     (let (m, u1) = M qubitIndex1 u in if val \<noteq> m then X qubitIndex1 u1 else u1)"

section \<open>Measurement of a register\<close>

text \<open>
  The sampling loop of \<open>MReg\<close>: \<open>while ((!foundPerm) && (lcv < maxQPower))\<close>. It returns
  \<open>result\<close> and \<open>nrmlzr\<close> as they stand when the loop ends. The bound of the loop is
  \<open>maxQPower\<close>, as in the source, not the length of \<open>probArray\<close>.
\<close>

function MReg_loop ::
  "real list \<Rightarrow> real \<Rightarrow> nat \<Rightarrow> nat \<Rightarrow> real \<Rightarrow> real \<Rightarrow> nat \<Rightarrow> real \<Rightarrow> nat \<times> real" where
  "MReg_loop probArray prob maxQPower' lcv lowerProb largestProb result nrmlzr =
     (if lcv < maxQPower' then
        (if probArray ! lcv + lowerProb > prob then (lcv, probArray ! lcv)
         else if largestProb \<le> probArray ! lcv then
           MReg_loop probArray prob maxQPower' (lcv + 1) (lowerProb + probArray ! lcv)
             (probArray ! lcv) lcv (probArray ! lcv)
         else
           MReg_loop probArray prob maxQPower' (lcv + 1) (lowerProb + probArray ! lcv)
             largestProb result nrmlzr)
      else (result, nrmlzr))"
  by pat_completeness auto
termination
  by (relation "measure (\<lambda>(probArray, prob, maxQPower', lcv, rest). maxQPower' - lcv)") auto

text \<open>
  \<open>nrmlzr\<close> is declared without a value in the source; the first round of the loop assigns
  it on either branch (\<open>largestProb\<close> is 0 and no entry of \<open>probArray\<close> is negative), so
  the loop is started here with 0 in its place.
\<close>

definition MReg :: "nat \<Rightarrow> nat \<Rightarrow> CoherentUnit \<Rightarrow> nat \<times> CoherentUnit" where
  "MReg start len u0 =
     (if len = 1 then
        (let (m, u) = M start u0 in (if m then 1 else 0, u))
      else
        (let u1 = (if runningNorm u0 \<noteq> 1 then NormalizeState u0 else u0);
             (prob, u2) = Rand u1;
             (r, u3) = Rand u2;
             angle = r * 2 * pi;
             cosine = cos angle;
             sine = sin angle;
             lengthPower = push_bit len (1::nat);
             regMask = push_bit start (lengthPower - 1);
             probArray0 = replicate lengthPower (0::real);
             probArray = fold (\<lambda>lcv pa.
                           pa[drop_bit start (lcv AND regMask) :=
                                pa ! drop_bit start (lcv AND regMask) + norm_amp (stateVec u3 ! lcv)])
                         [0..<maxQPower u3] probArray0;
             (result, nrmlzr) =
                MReg_loop probArray prob (maxQPower u3) 0 0 0 (lengthPower - 1) 0;
             resultPtr = push_bit start result;
             nrm = Complex cosine sine / complex_of_real nrmlzr;
             sv = par_for 0 (maxQPower u3) (\<lambda>lcv sv.
                    if lcv AND resultPtr = resultPtr then sv[lcv := nrm * sv ! lcv]
                    else sv[lcv := 0]) (stateVec u3)
         in (result, UpdateRunningNorm (u3\<lparr>stateVec := sv\<rparr>))))"

definition SetReg :: "nat \<Rightarrow> nat \<Rightarrow> nat \<Rightarrow> CoherentUnit \<Rightarrow> CoherentUnit" where
  "SetReg start len val u =
     (if len = 1 then SetBit start (val = 1) u
      else if start = 0 \<and> len = qubitCount u then
        (let (r, u1) = Rand u;
             angle = r * 2 * pi;
             sv = (replicate (maxQPower u1) (Complex 0 0))[val := Complex (cos angle) (sin angle)]
         in u1\<lparr>runningNorm := 1, stateVec := sv\<rparr>)
      else
        (let (regVal, u1) = MReg start len u
         in fold (\<lambda>i u'.
              (let bitVal = (regVal AND push_bit i 1 \<noteq> 0)
               in if (bitVal \<and> \<not> (val AND push_bit i 1 \<noteq> 0))
                     \<or> (\<not> bitVal \<and> (val AND push_bit i 1 \<noteq> 0))
                  then X (start + i) u' else u')) [0..<len] u1))"

section \<open>Composition of two units\<close>

text \<open>
  \<open>Cohere\<close> may normalize the unit it copies from, so it returns both units. The fresh
  vector \<open>new Complex16[nMaxQPower]\<close> is written at every index by the loop; it starts as
  zeros here. \<open>nMaxQPower\<close>, \<open>startMask\<close> and \<open>endMask\<close> are shifts on \<open>int\<close> in the
  source: the definition computes what the source computes when the combined unit has at
  most 30 qubits, and the statement about it carries that bound.
\<close>

definition Cohere :: "CoherentUnit \<Rightarrow> CoherentUnit \<Rightarrow> CoherentUnit \<times> CoherentUnit" where
  "Cohere self0 toCopy0 =
     (let self = (if runningNorm self0 \<noteq> 1 then NormalizeState self0 else self0);
          toCopy = (if runningNorm toCopy0 \<noteq> 1 then NormalizeState toCopy0 else toCopy0);
          nQubitCount = qubitCount self + qubitCount toCopy;
          nMaxQPower = push_bit nQubitCount (1::nat);
          startMask = push_bit (qubitCount self) (1::nat) - 1;
          endMask = push_bit (qubitCount self) (push_bit (qubitCount toCopy) (1::nat) - 1);
          nStateVec = par_for 0 nMaxQPower (\<lambda>lcv nsv.
                        nsv[lcv := stateVec self ! (lcv AND startMask)
                                   * stateVec toCopy ! drop_bit (qubitCount self) (lcv AND endMask)])
                      (replicate nMaxQPower 0);
          self' = ResetStateVec nStateVec (self\<lparr>qubitCount := nQubitCount, maxQPower := nMaxQPower\<rparr>)
      in (UpdateRunningNorm self', toCopy))"

section \<open>Controlled gates and the logic gates on single bits\<close>

definition throw :: "error \<Rightarrow> CoherentUnit \<Rightarrow> 'r outcome" where
  "throw e u = Inl (e, u)"

definition return :: "'r \<Rightarrow> CoherentUnit \<Rightarrow> 'r outcome" where
  "return r u = Inr (r, u)"

text \<open>Sequencing of two calls: an exception of the first one propagates.\<close>

definition andThen :: "unit outcome \<Rightarrow> (CoherentUnit \<Rightarrow> 'r outcome) \<Rightarrow> 'r outcome" where
  "andThen r f = (case r of Inl eu \<Rightarrow> Inl eu | Inr (_, u) \<Rightarrow> f u)"

definition CCNOT :: "nat \<Rightarrow> nat \<Rightarrow> nat \<Rightarrow> CoherentUnit \<Rightarrow> unit outcome" where
  "CCNOT control1 control2 target u =
     (if control1 = control2 then throw InvalidArgument u
      else if control1 = target \<or> control2 = target then throw InvalidArgument u
      else
        (let qPowers1 = push_bit control1 (1::nat);
             qPowers2 = push_bit control2 (1::nat);
             qPowers3 = push_bit target (1::nat);
             qPowers0 = qPowers1 + qPowers2 + qPowers3;
             qPowersSorted = sort [qPowers1, qPowers2, qPowers3]
         in return () (Apply2x2 qPowers0 (qPowers1 + qPowers2) pauliX 3 qPowersSorted False False u)))"

definition AntiCCNOT :: "nat \<Rightarrow> nat \<Rightarrow> nat \<Rightarrow> CoherentUnit \<Rightarrow> unit outcome" where
  "AntiCCNOT control1 control2 target u =
     (if control1 = control2 then throw InvalidArgument u
      else if control1 = target \<or> control2 = target then throw InvalidArgument u
      else
        (let qPowers1 = push_bit control1 (1::nat);
             qPowers2 = push_bit control2 (1::nat);
             qPowers3 = push_bit target (1::nat);
             qPowersSorted = sort [qPowers1, qPowers2, qPowers3]
         in return () (Apply2x2 0 qPowers3 pauliX 3 qPowersSorted False False u)))"

definition CNOT :: "nat \<Rightarrow> nat \<Rightarrow> CoherentUnit \<Rightarrow> unit outcome" where
  "CNOT control target u =
     (if control = target then throw InvalidArgument u
      else return () (ApplyControlled2x2 control target pauliX False u))"

definition AntiCNOT :: "nat \<Rightarrow> nat \<Rightarrow> CoherentUnit \<Rightarrow> unit outcome" where
  "AntiCNOT control target u =
     (if control = target then throw InvalidArgument u
      else return () (ApplyAntiControlled2x2 control target pauliX False u))"

definition AND_gate :: "nat \<Rightarrow> nat \<Rightarrow> nat \<Rightarrow> CoherentUnit \<Rightarrow> unit outcome" where
  "AND_gate inputBit1 inputBit2 outputBit u =
     (if inputBit1 = inputBit2 \<and> inputBit2 = outputBit then return () u
      else if inputBit1 \<noteq> outputBit \<and> inputBit2 \<noteq> outputBit then
        (let u1 = SetBit outputBit False u
         in if inputBit1 = inputBit2 then CNOT inputBit1 outputBit u1
            else CCNOT inputBit1 inputBit2 outputBit u1)
      else throw InvalidArgument u)"

definition OR_gate :: "nat \<Rightarrow> nat \<Rightarrow> nat \<Rightarrow> CoherentUnit \<Rightarrow> unit outcome" where
  "OR_gate inputBit1 inputBit2 outputBit u =
     (if inputBit1 = inputBit2 \<and> inputBit2 = outputBit then return () u
      else if inputBit1 \<noteq> outputBit \<and> inputBit2 \<noteq> outputBit then
        (let u1 = SetBit outputBit True u
         in if inputBit1 = inputBit2 then AntiCNOT inputBit1 outputBit u1
            else AntiCCNOT inputBit1 inputBit2 outputBit u1)
      else throw InvalidArgument u)"

definition XOR_gate :: "nat \<Rightarrow> nat \<Rightarrow> nat \<Rightarrow> CoherentUnit \<Rightarrow> unit outcome" where
  "XOR_gate inputBit1 inputBit2 outputBit u =
     (if inputBit1 = inputBit2 \<and> inputBit2 = outputBit then return () (SetBit outputBit False u)
      else if inputBit1 = outputBit then CNOT inputBit2 outputBit u
      else if inputBit2 = outputBit then CNOT inputBit1 outputBit u
      else
        andThen (CNOT inputBit1 outputBit (SetBit outputBit False u)) (CNOT inputBit2 outputBit))"

section \<open>Rotations in radians and in dyadic fractions\<close>

text \<open>
  \<open>numerator\<close> and \<open>denominator\<close> are \<open>int\<close> in the source and are converted to
  \<open>double\<close> by the arithmetic with \<open>M_PI\<close>; the quotient is a real division here.
\<close>

definition RT :: "real \<Rightarrow> nat \<Rightarrow> CoherentUnit \<Rightarrow> CoherentUnit" where
  "RT radians qubitIndex u =
     (let cosine = cos (radians / 2); sine = sin (radians / 2);
          mtrx = [Complex 1 0, Complex 0 0, Complex 0 0, Complex cosine sine]
      in ApplySingleBit qubitIndex mtrx True u)"

definition RTDyad :: "int \<Rightarrow> int \<Rightarrow> nat \<Rightarrow> CoherentUnit \<Rightarrow> CoherentUnit" where
  "RTDyad numerator denominator qubitIndex u =
     RT ((pi * of_int numerator * 2) / of_int denominator) qubitIndex u"

definition RX :: "real \<Rightarrow> nat \<Rightarrow> CoherentUnit \<Rightarrow> CoherentUnit" where
  "RX radians qubitIndex u =
     (let cosine = cos (radians / 2); sine = sin (radians / 2);
          pauliRX = [Complex cosine 0, Complex 0 (- sine), Complex 0 (- sine), Complex cosine 0]
      in ApplySingleBit qubitIndex pauliRX True u)"

definition RXDyad :: "int \<Rightarrow> int \<Rightarrow> nat \<Rightarrow> CoherentUnit \<Rightarrow> CoherentUnit" where
  "RXDyad numerator denominator qubitIndex u =
     RX ((- pi * of_int numerator * 2) / of_int denominator) qubitIndex u"

definition RY :: "real \<Rightarrow> nat \<Rightarrow> CoherentUnit \<Rightarrow> CoherentUnit" where
  "RY radians qubitIndex u =
     (let cosine = cos (radians / 2); sine = sin (radians / 2);
          pauliRY = [Complex cosine 0, Complex (- sine) 0, Complex sine 0, Complex cosine 0]
      in ApplySingleBit qubitIndex pauliRY True u)"

definition RYDyad :: "int \<Rightarrow> int \<Rightarrow> nat \<Rightarrow> CoherentUnit \<Rightarrow> CoherentUnit" where
  "RYDyad numerator denominator qubitIndex u =
     RY ((- pi * of_int numerator * 2) / of_int denominator) qubitIndex u"

definition RZ :: "real \<Rightarrow> nat \<Rightarrow> CoherentUnit \<Rightarrow> CoherentUnit" where
  "RZ radians qubitIndex u =
     (let cosine = cos (radians / 2); sine = sin (radians / 2);
          pauliRZ = [Complex cosine (- sine), Complex 0 0, Complex 0 0, Complex cosine sine]
      in ApplySingleBit qubitIndex pauliRZ True u)"

definition RZDyad :: "int \<Rightarrow> int \<Rightarrow> nat \<Rightarrow> CoherentUnit \<Rightarrow> CoherentUnit" where
  "RZDyad numerator denominator qubitIndex u =
     RZ ((- pi * of_int numerator * 2) / of_int denominator) qubitIndex u"

definition CRT :: "real \<Rightarrow> nat \<Rightarrow> nat \<Rightarrow> CoherentUnit \<Rightarrow> unit outcome" where
  "CRT radians control target u =
     (if control = target then throw InvalidArgument u
      else
        (let cosine = cos (radians / 2); sine = sin (radians / 2);
             mtrx = [Complex 1 0, Complex 0 0, Complex 0 0, Complex cosine sine]
         in return () (ApplyControlled2x2 control target mtrx True u)))"

definition CRTDyad :: "int \<Rightarrow> int \<Rightarrow> nat \<Rightarrow> nat \<Rightarrow> CoherentUnit \<Rightarrow> unit outcome" where
  "CRTDyad numerator denominator control target u =
     (if control = target then throw InvalidArgument u
      else CRT ((- pi * of_int numerator * 2) / of_int denominator) control target u)"

definition CRX :: "real \<Rightarrow> nat \<Rightarrow> nat \<Rightarrow> CoherentUnit \<Rightarrow> unit outcome" where
  "CRX radians control target u =
     (if control = target then throw InvalidArgument u
      else
        (let cosine = cos (radians / 2); sine = sin (radians / 2);
             pauliRX = [Complex cosine 0, Complex 0 (- sine), Complex 0 (- sine), Complex cosine 0]
         in return () (ApplyControlled2x2 control target pauliRX True u)))"

definition CRXDyad :: "int \<Rightarrow> int \<Rightarrow> nat \<Rightarrow> nat \<Rightarrow> CoherentUnit \<Rightarrow> unit outcome" where
  "CRXDyad numerator denominator control target u =
     (if control = target then throw InvalidArgument u
      else CRX ((- pi * of_int numerator * 2) / of_int denominator) control target u)"

definition CRY :: "real \<Rightarrow> nat \<Rightarrow> nat \<Rightarrow> CoherentUnit \<Rightarrow> unit outcome" where
  "CRY radians control target u =
     (if control = target then throw InvalidArgument u
      else
        (let cosine = cos (radians / 2); sine = sin (radians / 2);
             pauliRY = [Complex cosine 0, Complex (- sine) 0, Complex sine 0, Complex cosine 0]
         in return () (ApplyControlled2x2 control target pauliRY True u)))"

definition CRYDyad :: "int \<Rightarrow> int \<Rightarrow> nat \<Rightarrow> nat \<Rightarrow> CoherentUnit \<Rightarrow> unit outcome" where
  "CRYDyad numerator denominator control target u =
     (if control = target then throw InvalidArgument u
      else CRY ((- pi * of_int numerator * 2) / of_int denominator) control target u)"

definition CRZ :: "real \<Rightarrow> nat \<Rightarrow> nat \<Rightarrow> CoherentUnit \<Rightarrow> unit outcome" where
  "CRZ radians control target u =
     (if control = target then throw InvalidArgument u
      else
        (let cosine = cos (radians / 2); sine = sin (radians / 2);
             pauliRZ = [Complex cosine (- sine), Complex 0 0, Complex 0 0, Complex cosine sine]
         in return () (ApplyControlled2x2 control target pauliRZ True u)))"

definition CRZDyad :: "int \<Rightarrow> int \<Rightarrow> nat \<Rightarrow> nat \<Rightarrow> CoherentUnit \<Rightarrow> unit outcome" where
  "CRZDyad numerator denominator control target u =
     (if control = target then throw InvalidArgument u
      else CRZ ((- pi * of_int numerator * 2) / of_int denominator) control target u)"

section \<open>Parallel iteration that skips a bit field\<close>

text \<open>
  \<open>par_for_skip\<close> spreads the counter around \<open>maskWidth\<close> zero bits at the position of
  \<open>skipMask\<close>. The complement \<open>~\<close> of the source is taken on \<open>bitCapInt\<close>; the result is
  only used under a conjunction with the shifted counter, so the complement of the integers
  gives the same value as long as the shifted counter fits the machine word.
\<close>

definition par_for_skip ::
  "nat \<Rightarrow> nat \<Rightarrow> nat \<Rightarrow> nat \<Rightarrow> (nat \<Rightarrow> 's \<Rightarrow> 's) \<Rightarrow> 's \<Rightarrow> 's" where
  "par_for_skip begin end skipMask maskWidth fn s =
     (let lowMask = skipMask - 1;
          highMask = push_bit (maskWidth - 1) (NOT (int (lowMask + skipMask)));
          incFn = (\<lambda>i. nat (push_bit maskWidth (int i) AND highMask) OR (i AND lowMask))
      in par_for_inc begin end incFn fn s)"

section \<open>Binary coded decimal addition and subtraction\<close>

text \<open>
  The nibbles are \<open>char\<close> in the source (signed on the platforms Qrack builds for) and
  integers here; they stay between -10 and 25, inside the range of \<open>char\<close>. The carry
  variants measure the carry qubit, and reset it with \<open>X\<close>, before they test the length.
\<close>

definition INCBCD :: "nat \<Rightarrow> nat \<Rightarrow> nat \<Rightarrow> CoherentUnit \<Rightarrow> unit outcome" where
  "INCBCD toAdd inOutStart len u =
     (let nibbleCount = len div 4
      in if nibbleCount * 4 \<noteq> len then throw InvalidArgument u
         else
           (let inOutMask = push_bit inOutStart (push_bit len (1::nat) - 1);
                otherMask = (push_bit (qubitCount u) (1::nat) - 1) XOR inOutMask;
                nStateVec0 = replicate (maxQPower u) (0::complex);
                nStateVec = par_for 0 (maxQPower u) (\<lambda>lcv nsv.
                  (let otherRes = lcv AND otherMask;
                       inOutRes = lcv AND inOutMask;
                       inOutInt = drop_bit inOutStart inOutRes;
                       (nibbles, partRest, isValid) =
                         fold (\<lambda>j (nibbles, part, isValid).
                           (let test1 = int (drop_bit (j * 4) (inOutInt AND push_bit (j * 4) 15));
                                test2 = int (part mod 10)
                            in (nibbles[j := test1 + test2], part div 10,
                                isValid \<and> \<not> (test1 > 9))))
                           [0..<nibbleCount] (replicate nibbleCount (0::int), toAdd, True)
                   in if isValid then
                        (let (nibbles', outInt) =
                               fold (\<lambda>j (nibbles, outInt).
                                 (let nibbles' =
                                        (if nibbles ! j > 9 then
                                           (let n1 = nibbles[j := nibbles ! j - 10]
                                            in if j + 1 < nibbleCount
                                               then n1[j + 1 := n1 ! (j + 1) + 1]
                                               else n1)
                                         else nibbles)
                                  in (nibbles', outInt OR push_bit (j * 4) (nat (nibbles' ! j)))))
                               [0..<nibbleCount] (nibbles, 0::nat)
                         in nsv[push_bit inOutStart outInt OR otherRes := stateVec u ! lcv])
                      else nsv[lcv := stateVec u ! lcv])) nStateVec0
            in return () (ResetStateVec nStateVec u)))"

definition INCBCDC :: "nat \<Rightarrow> nat \<Rightarrow> nat \<Rightarrow> nat \<Rightarrow> CoherentUnit \<Rightarrow> unit outcome" where
  "INCBCDC toAdd0 inOutStart len carryIndex u0 =
     (let (hasCarry, u1) = M carryIndex u0;
          (u, toAdd) = (if hasCarry then (X carryIndex u1, toAdd0 + 1) else (u1, toAdd0));
          nibbleCount = len div 4
      in if nibbleCount * 4 \<noteq> len then throw InvalidArgument u
         else
           (let inOutMask = push_bit inOutStart (push_bit len (1::nat) - 1);
                carryMask = push_bit carryIndex (1::nat);
                otherMask = (push_bit (qubitCount u) (1::nat) - 1) XOR (inOutMask OR carryMask);
                nStateVec0 = replicate (maxQPower u) (0::complex);
                nStateVec = par_for_skip 0 (maxQPower u) (push_bit carryIndex (1::nat)) 1 (\<lambda>lcv nsv.
                  (let otherRes = lcv AND otherMask;
                       inOutRes = lcv AND inOutMask;
                       inOutInt = drop_bit inOutStart inOutRes;
                       test10 = int (inOutInt AND 15);
                       test20 = int (toAdd mod 10);
                       nibbles0 = (replicate nibbleCount (0::int))[0 := test10 + test20];
                       isValid0 = \<not> (test10 > 9 \<or> test20 > 9);
                       (nibbles, partRest, isValid) =
                         fold (\<lambda>j (nibbles, part, isValid).
                           (let test1 = int (drop_bit (j * 4) (inOutInt AND push_bit (j * 4) 15));
                                test2 = int (part mod 10)
                            in (nibbles[j := test1 + test2], part div 10,
                                isValid \<and> \<not> (test1 > 9 \<or> test2 > 9))))
                           [1..<nibbleCount] (nibbles0, toAdd div 10, isValid0)
                   in if isValid then
                        (let (nibbles', outInt, carryRes) =
                               fold (\<lambda>j (nibbles, outInt, carryRes).
                           (let (nibbles', carryRes') =
                                  (if nibbles ! j > 9 then
                                     (let n1 = nibbles[j := nibbles ! j - 10]
                                      in if j + 1 < nibbleCount
                                         then (n1[j + 1 := n1 ! (j + 1) + 1], carryRes)
                                         else (n1, carryMask))
                                   else (nibbles, carryRes))
                            in (nibbles', outInt OR push_bit (j * 4) (nat (nibbles' ! j)), carryRes')))
                               [0..<nibbleCount] (nibbles, 0::nat, 0::nat)
                         in nsv[push_bit inOutStart outInt OR otherRes OR carryRes := stateVec u ! lcv])
                      else nsv[lcv := stateVec u ! lcv])) nStateVec0
            in return () (ResetStateVec nStateVec u)))"

definition DECBCD :: "nat \<Rightarrow> nat \<Rightarrow> nat \<Rightarrow> CoherentUnit \<Rightarrow> unit outcome" where
  "DECBCD toAdd inOutStart len u =
     (let nibbleCount = len div 4
      in if nibbleCount * 4 \<noteq> len then throw InvalidArgument u
         else
           (let inOutMask = push_bit inOutStart (push_bit len (1::nat) - 1);
                otherMask = (push_bit (qubitCount u) (1::nat) - 1) XOR inOutMask;
                nStateVec0 = replicate (maxQPower u) (0::complex);
                nStateVec = par_for 0 (maxQPower u) (\<lambda>lcv nsv.
                  (let otherRes = lcv AND otherMask;
                       inOutRes = lcv AND inOutMask;
                       inOutInt = drop_bit inOutStart inOutRes;
                       (nibbles, partRest, isValid) =
                         fold (\<lambda>j (nibbles, part, isValid).
                           (let test1 = int (drop_bit (j * 4) (inOutInt AND push_bit (j * 4) 15));
                                test2 = int (part mod 10)
                            in (nibbles[j := test1 - test2], part div 10,
                                isValid \<and> \<not> (test1 > 9))))
                           [0..<nibbleCount] (replicate nibbleCount (0::int), toAdd, True)
                   in if isValid then
                        (let (nibbles', outInt) =
                               fold (\<lambda>j (nibbles, outInt).
                                 (let nibbles' =
                                        (if nibbles ! j < 0 then
                                           (let n1 = nibbles[j := nibbles ! j + 10]
                                            in if j + 1 < nibbleCount
                                               then n1[j + 1 := n1 ! (j + 1) - 1]
                                               else n1)
                                         else nibbles)
                                  in (nibbles', outInt OR push_bit (j * 4) (nat (nibbles' ! j)))))
                               [0..<nibbleCount] (nibbles, 0::nat)
                         in nsv[push_bit inOutStart outInt OR otherRes := stateVec u ! lcv])
                      else nsv[lcv := stateVec u ! lcv])) nStateVec0
            in return () (ResetStateVec nStateVec u)))"

definition DECBCDC :: "nat \<Rightarrow> nat \<Rightarrow> nat \<Rightarrow> nat \<Rightarrow> CoherentUnit \<Rightarrow> unit outcome" where
  "DECBCDC toSub0 inOutStart len carryIndex u0 =
     (let (hasCarry, u1) = M carryIndex u0;
          (u, toSub) = (if hasCarry then (X carryIndex u1, toSub0 + 1) else (u1, toSub0));
          nibbleCount = len div 4
      in if nibbleCount * 4 \<noteq> len then throw InvalidArgument u
         else
           (let inOutMask = push_bit inOutStart (push_bit len (1::nat) - 1);
                carryMask = push_bit carryIndex (1::nat);
                otherMask = (push_bit (qubitCount u) (1::nat) - 1) XOR (inOutMask OR carryMask);
                nStateVec0 = replicate (maxQPower u) (0::complex);
                nStateVec = par_for_skip 0 (maxQPower u) (push_bit carryIndex (1::nat)) 1 (\<lambda>lcv nsv.
                  (let otherRes = lcv AND otherMask;
                       inOutRes = lcv AND inOutMask;
                       inOutInt = drop_bit inOutStart inOutRes;
                       test10 = int (inOutInt AND 15);
                       test20 = int (toSub mod 10);
                       nibbles0 = (replicate nibbleCount (0::int))[0 := test10 - test20];
                       isValid0 = \<not> (test10 > 9);
                       (nibbles, partRest, isValid) =
                         fold (\<lambda>j (nibbles, part, isValid).
                           (let test1 = int (drop_bit (j * 4) (inOutInt AND push_bit (j * 4) 15));
                                test2 = int (part mod 10)
                            in (nibbles[j := test1 - test2], part div 10,
                                isValid \<and> \<not> (test1 > 9))))
                           [1..<nibbleCount] (nibbles0, toSub div 10, isValid0)
                   in if isValid then
                        (let (nibbles', outInt, carryRes) =
                               fold (\<lambda>j (nibbles, outInt, carryRes).
                           (let (nibbles', carryRes') =
                                  (if nibbles ! j < 0 then
                                     (let n1 = nibbles[j := nibbles ! j + 10]
                                      in if j + 1 < nibbleCount
                                         then (n1[j + 1 := n1 ! (j + 1) - 1], carryRes)
                                         else (n1, carryMask))
                                   else (nibbles, carryRes))
                            in (nibbles', outInt OR push_bit (j * 4) (nat (nibbles' ! j)), carryRes')))
                               [0..<nibbleCount] (nibbles, 0::nat, 0::nat)
                         in nsv[push_bit inOutStart outInt OR otherRes OR carryRes := stateVec u ! lcv])
                      else nsv[lcv := stateVec u ! lcv])) nStateVec0
            in return () (ResetStateVec nStateVec u)))"

section \<open>Indexed loads from classical memory\<close>

text \<open>
  \<open>(unsigned char)(average + 0.5)\<close> truncates a \<open>double\<close> between 0 and 256 to its integer
  part; outside that range the conversion is undefined in C++ and \<open>to_uchar\<close> is
  arbitrary.
\<close>

definition to_uchar :: "real \<Rightarrow> nat" where
  "to_uchar x = nat \<lfloor>x\<rfloor> mod 256"

text \<open>
  The three functions declare \<open>double prob, average;\<close> and then add to \<open>average\<close> without
  giving it a value first. Its content at that point is whatever the stack holds; it is the
  parameter \<open>average0\<close> here. \<open>values\<close> is the byte table, one natural number below 256
  per byte.
\<close>

definition SuperposedLDA ::
  "nat \<Rightarrow> nat \<Rightarrow> nat \<Rightarrow> nat \<Rightarrow> nat list \<Rightarrow> real \<Rightarrow> CoherentUnit \<Rightarrow> nat \<times> CoherentUnit" where
  "SuperposedLDA indexStart indexLength valueStart valueLength values average0 u0 =
     (let u = SetReg valueStart valueLength 0 u0;
          valueBytes = (valueLength + 7) div 8;
          inputMask = push_bit indexStart (push_bit indexLength (1::nat) - 1);
          outputMask = push_bit valueStart (push_bit valueLength (1::nat) - 1);
          skipPower = push_bit valueStart (1::nat);
          nStateVec0 = replicate (maxQPower u) (0::complex);
          nStateVec = par_for_skip 0 (maxQPower u) skipPower 8 (\<lambda>lcv nsv.
            (let inputRes = lcv AND inputMask;
                 inputInt = drop_bit indexStart inputRes;
                 outputInt = fold (\<lambda>j outputInt.
                               outputInt OR push_bit (8 * j) (values ! (inputInt * valueBytes + j)))
                             [0..<valueBytes] (0::nat);
                 outputRes = push_bit valueStart outputInt
             in nsv[outputRes OR lcv := stateVec u ! lcv])) nStateVec0;
          average = fold (\<lambda>i average.
                      (let outputInt = drop_bit valueStart (i AND outputMask);
                           prob = norm_amp (nStateVec ! i)
                       in average + prob * real outputInt)) [0..<maxQPower u] average0
      in (to_uchar (average + 1/2), ResetStateVec nStateVec u))"

text \<open>
  In \<open>SuperposedADC\<close> and \<open>SuperposedSBC\<close> the mask of the other bits is
  \<open>(maxQPower - 1) & ~(inputMask | outputMask)\<close>; the complement is that of the integers,
  as in \<open>par_for_skip\<close>.
\<close>

definition SuperposedADC ::
  "nat \<Rightarrow> nat \<Rightarrow> nat \<Rightarrow> nat \<Rightarrow> nat \<Rightarrow> nat list \<Rightarrow> real \<Rightarrow> CoherentUnit \<Rightarrow> nat \<times> CoherentUnit" where
  "SuperposedADC indexStart indexLength valueStart valueLength carryIndex values average0 u0 =
     (let (m, u1) = M carryIndex u0;
          (carryIn, u) = (if m then (1::nat, X carryIndex u1) else (0, u1));
          nStateVec0 = replicate (maxQPower u) (0::complex);
          valueBytes = (valueLength + 7) div 8;
          lengthPower = push_bit valueLength (1::nat);
          carryMask = push_bit carryIndex (1::nat);
          inputMask = push_bit indexStart (push_bit indexLength (1::nat) - 1);
          outputMask = push_bit valueStart (push_bit valueLength (1::nat) - 1);
          otherMask = nat (int (maxQPower u - 1) AND NOT (int (inputMask OR outputMask)));
          skipPower = push_bit carryIndex (1::nat);
          nStateVec = par_for_skip 0 (maxQPower u) skipPower 1 (\<lambda>lcv nsv.
            (let otherRes = lcv AND otherMask;
                 inputRes = lcv AND inputMask;
                 inputInt = drop_bit indexStart inputRes;
                 outputRes0 = lcv AND outputMask;
                 loaded = fold (\<lambda>j outputInt.
                            outputInt OR push_bit (8 * j) (values ! (inputInt * valueBytes + j)))
                          [0..<valueBytes] (0::nat);
                 outputInt0 = loaded + (drop_bit valueStart outputRes0 + carryIn);
                 (outputInt, carryRes) =
                    (if outputInt0 \<ge> lengthPower then (outputInt0 - lengthPower, carryMask)
                     else (outputInt0, 0));
                 outputRes = push_bit valueStart outputInt
             in nsv[outputRes OR inputRes OR otherRes OR carryRes := stateVec u ! lcv])) nStateVec0;
          average = fold (\<lambda>i average.
                      (let outputInt = drop_bit valueStart (i AND outputMask);
                           prob = norm_amp (nStateVec ! i)
                       in average + prob * real outputInt)) [0..<maxQPower u] average0
      in (to_uchar (average + 1/2), ResetStateVec nStateVec u))"

text \<open>
  The subtraction \<open>lengthPower - (outputInt + carryIn)\<close> of \<open>SuperposedSBC\<close> is on
  \<open>bitCapInt\<close>; it is the subtraction of natural numbers here, the same value whenever the
  loaded entry plus the borrow does not exceed \<open>lengthPower\<close>.
\<close>

definition SuperposedSBC ::
  "nat \<Rightarrow> nat \<Rightarrow> nat \<Rightarrow> nat \<Rightarrow> nat \<Rightarrow> nat list \<Rightarrow> real \<Rightarrow> CoherentUnit \<Rightarrow> nat \<times> CoherentUnit" where
  "SuperposedSBC indexStart indexLength valueStart valueLength carryIndex values average0 u0 =
     (let (m, u1) = M carryIndex u0;
          (carryIn, u) = (if m then (0::nat, X carryIndex u1) else (1, u1));
          nStateVec0 = replicate (maxQPower u) (0::complex);
          valueBytes = (valueLength + 7) div 8;
          lengthPower = push_bit valueLength (1::nat);
          carryMask = push_bit carryIndex (1::nat);
          inputMask = push_bit indexStart (push_bit indexLength (1::nat) - 1);
          outputMask = push_bit valueStart (push_bit valueLength (1::nat) - 1);
          otherMask = nat (int (maxQPower u - 1) AND NOT (int (inputMask OR outputMask)));
          skipPower = push_bit carryIndex (1::nat);
          nStateVec = par_for_skip 0 (maxQPower u) skipPower 1 (\<lambda>lcv nsv.
            (let otherRes = lcv AND otherMask;
                 inputRes = lcv AND inputMask;
                 inputInt = drop_bit indexStart inputRes;
                 outputRes0 = lcv AND outputMask;
                 loaded = fold (\<lambda>j outputInt.
                            outputInt OR push_bit (8 * j) (values ! (inputInt * valueBytes + j)))
                          [0..<valueBytes] (0::nat);
                 outputInt0 = drop_bit valueStart outputRes0 + (lengthPower - (loaded + carryIn));
                 (outputInt, carryRes) =
                    (if outputInt0 \<ge> lengthPower then (outputInt0 - lengthPower, carryMask)
                     else (outputInt0, 0));
                 outputRes = push_bit valueStart outputInt
             in nsv[outputRes OR inputRes OR otherRes OR carryRes := stateVec u ! lcv])) nStateVec0;
          average = fold (\<lambda>i average.
                      (let outputInt = drop_bit valueStart (i AND outputMask);
                           prob = norm_amp (nStateVec ! i)
                       in average + prob * real outputInt)) [0..<maxQPower u] average0
      in (to_uchar (average + 1/2), ResetStateVec nStateVec u))"

section \<open>Index maps used in the statements\<close>

text \<open>
  \<open>regMove n start len d lcv\<close> is the basis index that agrees with \<open>lcv\<close> on every bit
  outside the register \<open>[start, start + len)\<close> and whose register holds the old register
  value plus \<open>d\<close>, modulo \<open>2 ^ len\<close>. It is the permutation that the theorems about
  \<open>INC\<close> and \<open>DEC\<close> compare the loop bodies with; it is not part of the source.
\<close>

definition regMove :: "nat \<Rightarrow> nat \<Rightarrow> nat \<Rightarrow> nat \<Rightarrow> nat \<Rightarrow> nat" where
  "regMove n start len d lcv =
     push_bit start ((take_bit len (drop_bit start lcv) + d) mod 2 ^ len)
       OR (lcv AND ((push_bit n (1::nat) - 1) XOR push_bit start (push_bit len (1::nat) - 1)))"

text \<open>
  The unit an operation works on after its opening
  \<open>if (runningNorm != 1.0) NormalizeState();\<close>.
\<close>

definition normalized_operand :: "CoherentUnit \<Rightarrow> CoherentUnit" where
  "normalized_operand u = (if runningNorm u \<noteq> 1 then NormalizeState u else u)"

section \<open>Concrete units for the examples\<close>

definition mkUnit :: "nat \<Rightarrow> complex list \<Rightarrow> (nat \<Rightarrow> real) \<Rightarrow> CoherentUnit" where
  "mkUnit n sv tape =
     \<lparr>qubitCount = n, maxQPower = 2 ^ n, stateVec = sv, runningNorm = 1, randTape = tape\<rparr>"

text \<open>A tape that yields the listed draws and then zeros.\<close>

definition tapeOf :: "real list \<Rightarrow> nat \<Rightarrow> real" where
  "tapeOf draws n = (if n < length draws then draws ! n else 0)"

text \<open>Two qubits in the uniform superposition, with two draws on the tape.\<close>

definition uniform2 :: "real \<Rightarrow> real \<Rightarrow> CoherentUnit" where
  "uniform2 d0 d1 = mkUnit 2 [1/2, 1/2, 1/2, 1/2] (tapeOf [d0, d1])"

text \<open>Two qubits in the basis state \<open>|00>\<close>, with the draws \<open>1/2\<close> and \<open>0\<close> on the tape.\<close>

definition zero2 :: CoherentUnit where
  "zero2 = mkUnit 2 [1, 0, 0, 0] (tapeOf [1/2, 0])"

text \<open>
  One qubit with the amplitudes \<open>3\<close> and \<open>4\<close> and \<open>runningNorm = 5\<close>: a unit that is
  waiting for its normalization.
\<close>

definition scaled1 :: CoherentUnit where
  "scaled1 = \<lparr>qubitCount = 1, maxQPower = 2, stateVec = [3, 4], runningNorm = 5,
               randTape = tapeOf []\<rparr>"

section \<open>Lemmas about the loops and the index arithmetic\<close>

lemma par_for_fold: "par_for 0 N fn s = fold fn [0..<N] s"
proof -
  have h: "takeWhile (\<lambda>i. i < N) [0..<N] = [0..<N]"
    by (rule takeWhile_eq_all_conv [THEN iffD2]) simp
  show ?thesis by (simp only: par_for_def par_for_inc_def map_ident h)
qed

lemma fold_scatter_length:
  "length (fold (\<lambda>i ns. ns[f i := g i]) is ns0) = length ns0"
  by (induction "is" arbitrary: ns0) auto

lemma fold_scatter_nth:
  assumes "inj_on f (set is)" "distinct is" "\<forall>i\<in>set is. f i < length ns0" "i \<in> set is"
  shows "fold (\<lambda>i ns. ns[f i := g i]) is ns0 ! f i = g i"
  using assms
proof (induction "is" arbitrary: ns0 rule: rev_induct)
  case Nil
  then show ?case by simp
next
  case (snoc x xs)
  show ?case
  proof (cases "i = x")
    case True
    then show ?thesis using snoc.prems by (simp add: fold_scatter_length)
  next
    case False
    then have ix: "i \<in> set xs" using snoc.prems by simp
    have "f i \<noteq> f x" using snoc.prems False by (auto simp: inj_on_def)
    moreover have "fold (\<lambda>i ns. ns[f i := g i]) xs ns0 ! f i = g i"
      using snoc.IH[of ns0] snoc.prems ix by (auto simp: inj_on_def)
    ultimately show ?thesis by simp
  qed
qed

lemma bit_regMove:
  assumes "lcv < 2 ^ n" "start + len \<le> n"
  shows "bit (regMove n start len d lcv) k \<longleftrightarrow>
     (if start \<le> k \<and> k < start + len
      then bit ((take_bit len (drop_bit start lcv) + d) mod 2 ^ len) (k - start)
      else bit lcv k)"
proof -
  have m: "push_bit m (1::nat) - 1 = mask m" for m
    by (simp add: mask_eq_exp_minus_1)
  have hi: "bit lcv k \<Longrightarrow> k < n"
    using assms(1) by (metis bit_take_bit_iff take_bit_nat_eq_self)
  have v: "bit ((take_bit len (drop_bit start lcv) + d) mod 2 ^ len) j \<Longrightarrow> j < len" for j
    by (metis bit_take_bit_iff take_bit_eq_mod)
  show ?thesis
    unfolding regMove_def m
    using hi v [of "k - start"] assms(2)
    by (auto simp: bit_simps)
qed


lemma regMove_less:
  assumes "lcv < 2 ^ n" "start + len \<le> n"
  shows "regMove n start len d lcv < 2 ^ n"
proof -
  have "take_bit n (regMove n start len d lcv) = regMove n start len d lcv"
  proof (rule bit_eqI)
    fix k
    have hi: "bit lcv k \<Longrightarrow> k < n"
      using assms(1) by (metis bit_take_bit_iff take_bit_nat_eq_self)
    show "bit (take_bit n (regMove n start len d lcv)) k = bit (regMove n start len d lcv) k"
      using hi assms(2) by (auto simp: bit_take_bit_iff bit_regMove [OF assms])
  qed
  then show ?thesis
    by (metis take_bit_nat_less_exp)
qed

lemma field_regMove:
  assumes "lcv < 2 ^ n" "start + len \<le> n"
  shows "take_bit len (drop_bit start (regMove n start len d lcv))
           = (take_bit len (drop_bit start lcv) + d) mod 2 ^ len"
proof (rule bit_eqI)
  fix k
  have v: "bit ((take_bit len (drop_bit start lcv) + d) mod 2 ^ len) j \<Longrightarrow> j < len" for j
    by (metis bit_take_bit_iff take_bit_eq_mod)
  show "bit (take_bit len (drop_bit start (regMove n start len d lcv))) k
        = bit ((take_bit len (drop_bit start lcv) + d) mod 2 ^ len) k"
    using v [of k] by (auto simp: bit_take_bit_iff bit_drop_bit_eq bit_regMove [OF assms])
qed

lemma regMove_regMove:
  assumes "lcv < 2 ^ n" "start + len \<le> n" "(d + e) mod 2 ^ len = 0"
  shows "regMove n start len e (regMove n start len d lcv) = lcv"
proof (rule bit_eqI)
  fix k
  let ?m = "regMove n start len d lcv"
  have ml: "?m < 2 ^ n" by (rule regMove_less [OF assms(1,2)])
  have "(take_bit len (drop_bit start ?m) + e) mod 2 ^ len
        = ((take_bit len (drop_bit start lcv) + d) mod 2 ^ len + e) mod 2 ^ len"
    by (simp add: field_regMove [OF assms(1,2)])
  also have "\<dots> = (take_bit len (drop_bit start lcv) + (d + e)) mod 2 ^ len"
    by (simp add: mod_add_left_eq add.assoc)
  also have "\<dots> = (take_bit len (drop_bit start lcv) + (d + e) mod 2 ^ len) mod 2 ^ len"
    by (simp add: mod_add_right_eq)
  also have "\<dots> = take_bit len (drop_bit start lcv)"
    by (simp add: assms(3) take_bit_eq_mod)
  finally have f: "(take_bit len (drop_bit start ?m) + e) mod 2 ^ len
        = take_bit len (drop_bit start lcv)" .
  show "bit (regMove n start len e ?m) k = bit lcv k"
    unfolding bit_regMove [OF ml assms(2)] f
    by (auto simp: bit_take_bit_iff bit_drop_bit_eq bit_regMove [OF assms(1,2)])
qed

lemma field_extract:
  "drop_bit start (lcv AND push_bit start (push_bit len (1::nat) - 1)) = take_bit len (drop_bit start lcv)"
proof -
  have m: "push_bit m (1::nat) - 1 = mask m" for m
    by (simp add: mask_eq_exp_minus_1)
  show ?thesis unfolding m
    by (rule bit_eqI) (auto simp: bit_simps)
qed

lemma wrap_add:
  assumes "a < (2::nat) ^ len" "t < 2 ^ len"
  shows "(if a + t < 2 ^ len then a + t else a + t - 2 ^ len) = (a + t) mod 2 ^ len"
proof (cases "a + t < 2 ^ len")
  case True
  then show ?thesis by simp
next
  case False
  then have "a + t - 2 ^ len < 2 ^ len" "a + t = (a + t - 2 ^ len) + 2 ^ len"
    using assms by auto
  then show ?thesis using False
    by (metis mod_add_self2 mod_less)
qed

lemma INC_body:
  "(let otherRes = lcv AND ((push_bit n (1::nat) - 1) XOR push_bit start (push_bit len (1::nat) - 1));
              inOutRes = lcv AND push_bit start (push_bit len (1::nat) - 1);
              inOutInt = drop_bit start inOutRes;
              outInt = inOutInt + t mod push_bit len (1::nat);
              outRes = (if outInt < push_bit len (1::nat) then push_bit start outInt OR otherRes
                        else push_bit start (outInt - push_bit len (1::nat)) OR otherRes)
          in outRes) = regMove n start len t lcv"
proof -
  let ?a = "take_bit len (drop_bit start lcv)"
  have a: "?a < 2 ^ len" by simp
  have t: "t mod 2 ^ len < 2 ^ len" by simp
  have "(if ?a + t mod 2 ^ len < 2 ^ len then ?a + t mod 2 ^ len else ?a + t mod 2 ^ len - 2 ^ len)
        = (?a + t mod 2 ^ len) mod 2 ^ len"
    by (rule wrap_add [OF a t])
  also have "\<dots> = (?a + t) mod 2 ^ len" by (simp add: mod_add_right_eq)
  finally have w: "(if ?a + t mod 2 ^ len < 2 ^ len then ?a + t mod 2 ^ len else ?a + t mod 2 ^ len - 2 ^ len)
        = (?a + t) mod 2 ^ len" .
  show ?thesis
    unfolding Let_def field_extract regMove_def
    using w by (simp add: push_bit_eq_mult split: if_splits)
qed

lemma DEC_body:
  assumes "0 < t mod 2 ^ len"
  shows "(let otherRes = lcv AND ((push_bit n (1::nat) - 1) XOR push_bit start (push_bit len (1::nat) - 1));
              inOutRes = lcv AND push_bit start (push_bit len (1::nat) - 1);
              inOutInt = drop_bit start inOutRes;
              outInt = inOutInt + push_bit len (1::nat) - t mod push_bit len (1::nat);
              outRes = (if outInt < push_bit len (1::nat) then push_bit start outInt OR otherRes
                        else push_bit start (outInt - push_bit len (1::nat)) OR otherRes)
          in outRes) = regMove n start len (2 ^ len - t mod 2 ^ len) lcv"
proof -
  let ?a = "take_bit len (drop_bit start lcv)"
  let ?e = "2 ^ len - t mod 2 ^ len :: nat"
  let ?X = "?a + 2 ^ len - t mod 2 ^ len"
  have p: "push_bit len (1::nat) = 2 ^ len" by simp
  have a: "?a < 2 ^ len" by simp
  have e: "?e < 2 ^ len" using assms by simp
  have r: "?X = ?a + ?e"
    by (simp add: less_imp_le)
  have w: "(if ?a + ?e < 2 ^ len then ?a + ?e else ?a + ?e - 2 ^ len) = (?a + ?e) mod 2 ^ len"
    by (rule wrap_add [OF a e])
  have w': "(if ?X < 2 ^ len then ?X else ?X - 2 ^ len) = (?a + ?e) mod 2 ^ len"
    unfolding r by (rule w)
  show ?thesis
  proof (cases "?X < 2 ^ len")
    case True
    have "(?a + ?e) mod 2 ^ len = ?X"
      using w' by (simp only: True if_True)
    then show ?thesis
      unfolding Let_def field_extract regMove_def unfolding p by (simp only: True if_True)
  next
    case False
    have "(?a + ?e) mod 2 ^ len = ?X - 2 ^ len"
      using w' by (simp only: False if_False)
    then show ?thesis
      unfolding Let_def field_extract regMove_def unfolding p by (simp only: False if_False)
  qed
qed

lemma regMove_inj:
  assumes "start + len \<le> n"
  shows "inj_on (regMove n start len d) {..<2 ^ n}"
proof (rule inj_on_inverseI)
  fix x :: nat assume "x \<in> {..<2 ^ n}"
  then have x: "x < 2 ^ n" by simp
  have "(d + (2 ^ len - d mod 2 ^ len)) mod 2 ^ len = 0"
  proof -
    have A: "(d + (2 ^ len - d mod 2 ^ len)) mod 2 ^ len
            = (d mod 2 ^ len + (2 ^ len - d mod 2 ^ len)) mod 2 ^ len"
      by (rule mod_add_left_eq [symmetric])
    have B: "d mod 2 ^ len + (2 ^ len - d mod 2 ^ len) = (2::nat) ^ len"
      by (simp add: less_imp_le)
    have "(d mod 2 ^ len + (2 ^ len - d mod 2 ^ len)) mod 2 ^ len = (0::nat)"
      by (simp only: B mod_self)
    then show ?thesis by (rule trans [OF A])
  qed
  then show "regMove n start len (2 ^ len - d mod 2 ^ len) (regMove n start len d x) = x"
    by (rule regMove_regMove [OF x assms])
qed

lemma scatter_regMove:
  assumes "start + len \<le> n" "length sv = 2 ^ n" "lcv < 2 ^ n"
  shows "fold (\<lambda>i ns. ns[regMove n start len d i := sv ! i]) [0..<2 ^ n] (replicate (2 ^ n) z)
           ! regMove n start len d lcv = sv ! lcv"
proof (rule fold_scatter_nth)
  show "inj_on (regMove n start len d) (set [0..<2 ^ n])"
    using regMove_inj [OF assms(1), of d] by (simp add: lessThan_atLeast0)
  show "distinct [0..<2 ^ n]" by simp
  show "\<forall>i\<in>set [0..<2 ^ n]. regMove n start len d i < length (replicate (2 ^ n) z)"
    using regMove_less [OF _ assms(1)] by simp
  show "lcv \<in> set [0..<2 ^ n]" using assms(3) by simp
qed

lemma INC_stateVec_a:
  assumes "inRange u" "0 < len" "0 < k mod 2 ^ len"
  shows "INC k start len u
         = u\<lparr>stateVec := fold (\<lambda>i ns. ns[regMove (qubitCount u) start len k i := stateVec u ! i])
             [0..<2 ^ qubitCount u] (replicate (2 ^ qubitCount u) 0)\<rparr>"
proof -
  have mq: "maxQPower u = 2 ^ qubitCount u" using assms(1) by (simp add: inRange_def)
  have c: "(0 < len \<and> 0 < k mod push_bit len (1::nat)) = True"
    using assms(2,3) by (simp add: push_bit_eq_mult)
  have "INC k start len u = ResetStateVec (par_for 0 (maxQPower u) (\<lambda>lcv nsv.
          nsv[(let otherRes = lcv AND ((push_bit (qubitCount u) (1::nat) - 1) XOR push_bit start (push_bit len (1::nat) - 1));
              inOutRes = lcv AND push_bit start (push_bit len (1::nat) - 1);
              inOutInt = drop_bit start inOutRes;
              outInt = inOutInt + k mod push_bit len (1::nat);
              outRes = (if outInt < push_bit len (1::nat) then push_bit start outInt OR otherRes
                        else push_bit start (outInt - push_bit len (1::nat)) OR otherRes)
          in outRes) := stateVec u ! lcv]) (replicate (maxQPower u) 0)) u"
    unfolding INC_def Let_def by (simp only: c if_True)
  then show ?thesis
    by (simp only: INC_body ResetStateVec_def par_for_fold mq)
qed

lemma DEC_stateVec_a:
  assumes "inRange u" "0 < len" "0 < k mod 2 ^ len"
  shows "DEC k start len u
         = u\<lparr>stateVec := fold (\<lambda>i ns. ns[regMove (qubitCount u) start len (2 ^ len - k mod 2 ^ len) i := stateVec u ! i])
             [0..<2 ^ qubitCount u] (replicate (2 ^ qubitCount u) 0)\<rparr>"
proof -
  have mq: "maxQPower u = 2 ^ qubitCount u" using assms(1) by (simp add: inRange_def)
  have c: "(0 < len \<and> 0 < k mod push_bit len (1::nat)) = True"
    using assms(2,3) by (simp add: push_bit_eq_mult)
  have "DEC k start len u = ResetStateVec (par_for 0 (maxQPower u) (\<lambda>lcv nsv.
          nsv[(let otherRes = lcv AND ((push_bit (qubitCount u) (1::nat) - 1) XOR push_bit start (push_bit len (1::nat) - 1));
              inOutRes = lcv AND push_bit start (push_bit len (1::nat) - 1);
              inOutInt = drop_bit start inOutRes;
              outInt = inOutInt + push_bit len (1::nat) - k mod push_bit len (1::nat);
              outRes = (if outInt < push_bit len (1::nat) then push_bit start outInt OR otherRes
                        else push_bit start (outInt - push_bit len (1::nat)) OR otherRes)
          in outRes) := stateVec u ! lcv]) (replicate (maxQPower u) 0)) u"
    unfolding DEC_def Let_def by (simp only: c if_True)
  then show ?thesis
    by (simp only: DEC_body [OF assms(3)] ResetStateVec_def par_for_fold mq)
qed

lemma regMove_complement:
  "(d + (2 ^ len - d mod 2 ^ len)) mod 2 ^ len = (0::nat)"
proof -
  have A: "(d + (2 ^ len - d mod 2 ^ len)) mod 2 ^ len
          = (d mod 2 ^ len + (2 ^ len - d mod 2 ^ len)) mod 2 ^ len"
    by (rule mod_add_left_eq [symmetric])
  have B: "d mod 2 ^ len + (2 ^ len - d mod 2 ^ len) = (2::nat) ^ len"
    by (simp add: less_imp_le)
  have "(d mod 2 ^ len + (2 ^ len - d mod 2 ^ len)) mod 2 ^ len = (0::nat)"
    by (simp only: B mod_self)
  then show ?thesis by (rule trans [OF A])
qed

lemma sel_upd: "stateVec (u\<lparr>stateVec := x\<rparr>) = x" "qubitCount (u\<lparr>stateVec := x\<rparr>) = qubitCount u"
  "u\<lparr>stateVec := x\<rparr>\<lparr>stateVec := stateVec u\<rparr> = u"
  by simp_all

lemma inRange_upd: "inRange u \<Longrightarrow> length x = 2 ^ qubitCount u \<Longrightarrow> inRange (u\<lparr>stateVec := x\<rparr>)"
  by (simp add: inRange_def)

lemma INC_noop: "k mod 2 ^ len = 0 \<or> len = 0 \<Longrightarrow> INC k start len u = u"
  by (auto simp: INC_def Let_def)

lemma DEC_noop: "k mod 2 ^ len = 0 \<or> len = 0 \<Longrightarrow> DEC k start len u = u"
  by (auto simp: DEC_def Let_def)

lemma regMove_id:
  assumes "lcv < 2 ^ n" "start + len \<le> n" "d mod 2 ^ len = 0"
  shows "regMove n start len d lcv = lcv"
proof (rule bit_eqI)
  fix k
  let ?a = "take_bit len (drop_bit start lcv)"
  have "(?a + d) mod 2 ^ len = (?a + d mod 2 ^ len) mod 2 ^ len"
    by (rule mod_add_right_eq [symmetric])
  also have "\<dots> = ?a" by (simp add: assms(3) take_bit_eq_mod)
  finally have f: "(?a + d) mod 2 ^ len = ?a" .
  show "bit (regMove n start len d lcv) k = bit lcv k"
    unfolding bit_regMove [OF assms(1,2)] f
    by (auto simp: bit_take_bit_iff bit_drop_bit_eq)
qed

lemma dec_value:
  "int ((v + (2 ^ len - k mod 2 ^ len)) mod 2 ^ len) = (int v - int k) mod 2 ^ len"
proof -
  let ?M = "2 ^ len :: nat"
  have t: "k mod ?M \<le> ?M" by simp
  have "int ((v + (?M - k mod ?M)) mod ?M) = (int v + (int ?M - int (k mod ?M))) mod int ?M"
    unfolding zmod_int of_nat_add of_nat_diff [OF t] ..
  also have "\<dots> = ((int v - int (k mod ?M)) + int ?M) mod int ?M"
    by (simp add: algebra_simps)
  also have "\<dots> = (int v - int (k mod ?M)) mod int ?M"
    by (rule mod_add_self2)
  also have "\<dots> = (int v - int k mod int ?M) mod int ?M"
    by (simp only: zmod_int)
  also have "\<dots> = (int v - int k) mod int ?M"
    by (rule mod_diff_right_eq)
  finally show ?thesis by simp
qed

lemma upt_4: "[0..<4] = [0, 1, 2, 3::nat]"
  by code_simp

lemma replicate_4: "replicate 4 x = [x, x, x, x]"
  by (simp add: eval_nat_numeral)

lemma list_update_4:
  "[a, b, c, d][0 := x] = [x, b, c, d]"
  "[a, b, c, d][1 := x] = [a, x, c, d]"
  "[a, b, c, d][2 := x] = [a, b, x, d]"
  "[a, b, c, d][3 := x] = [a, b, c, x]"
  by (simp_all add: eval_nat_numeral)

lemma nth_4:
  "[a, b, c, d] ! 0 = a"
  "[a, b, c, d] ! 1 = b"
  "[a, b, c, d] ! 2 = c"
  "[a, b, c, d] ! 3 = d"
  by (simp_all add: eval_nat_numeral)

lemma DEC_INC_cancel:
  assumes "inRange u" "start + len \<le> qubitCount u"
  shows "DEC k start len (INC k start len u) = u"
proof (cases "0 < len \<and> 0 < k mod 2 ^ len")
  case False
  then have z: "k mod 2 ^ len = 0 \<or> len = 0" by auto
  show ?thesis by (simp only: INC_noop [OF z] DEC_noop [OF z])
next
  case True
  let ?n = "qubitCount u"
  let ?e = "2 ^ len - k mod 2 ^ len :: nat"
  let ?sv1 = "fold (\<lambda>i ns. ns[regMove ?n start len k i := stateVec u ! i])
             [0..<2 ^ ?n] (replicate (2 ^ ?n) 0)"
  let ?u1 = "u\<lparr>stateVec := ?sv1\<rparr>"
  let ?sv2 = "fold (\<lambda>i ns. ns[regMove ?n start len ?e i := ?sv1 ! i])
             [0..<2 ^ ?n] (replicate (2 ^ ?n) 0)"
  have lsv: "length (stateVec u) = 2 ^ ?n" using assms(1) by (simp add: inRange_def)
  have l1: "length ?sv1 = 2 ^ ?n" by (simp only: fold_scatter_length length_replicate)
  have l2: "length ?sv2 = 2 ^ ?n" by (simp only: fold_scatter_length length_replicate)
  have i1: "INC k start len u = ?u1"
    by (rule INC_stateVec_a [OF assms(1) conjunct1 [OF True] conjunct2 [OF True]])
  have r1: "inRange ?u1"
    by (rule inRange_upd [OF assms(1) l1])
  have q1: "qubitCount ?u1 = ?n" by (rule sel_upd)
  have s1: "stateVec ?u1 = ?sv1" by (rule sel_upd)
  have "DEC k start len ?u1 = ?u1\<lparr>stateVec := fold (\<lambda>i ns. ns[regMove (qubitCount ?u1) start len ?e i := stateVec ?u1 ! i])
             [0..<2 ^ qubitCount ?u1] (replicate (2 ^ qubitCount ?u1) 0)\<rparr>"
    by (rule DEC_stateVec_a [OF r1 conjunct1 [OF True] conjunct2 [OF True]])
  then have i2: "DEC k start len ?u1 = ?u1\<lparr>stateVec := ?sv2\<rparr>"
    by (simp only: q1 s1)
  have fin: "?sv2 = stateVec u"
  proof (rule nth_equalityI)
    show "length ?sv2 = length (stateVec u)" by (simp only: l2 lsv)
  next
    fix j assume "j < length ?sv2"
    then have j: "j < 2 ^ ?n" by (simp only: l2)
    let ?j1 = "regMove ?n start len k j"
    have j1: "?j1 < 2 ^ ?n" by (rule regMove_less [OF j assms(2)])
    have rt: "regMove ?n start len ?e ?j1 = j"
      by (rule regMove_regMove [OF j assms(2) regMove_complement])
    have "?sv2 ! regMove ?n start len ?e ?j1 = ?sv1 ! ?j1"
      by (rule scatter_regMove [OF assms(2) l1 j1])
    also have "?sv1 ! ?j1 = stateVec u ! j"
      by (rule scatter_regMove [OF assms(2) lsv j])
    finally show "?sv2 ! j = stateVec u ! j" by (simp only: rt)
  qed
  show ?thesis by (simp only: i1 i2 fin sel_upd)
qed


lemma INC_moves:
  assumes "inRange u" "start + len \<le> qubitCount u" "lcv < maxQPower u"
  shows "stateVec (INC k start len u) ! regMove (qubitCount u) start len k lcv = stateVec u ! lcv"
proof (cases "0 < len \<and> 0 < k mod 2 ^ len")
  case True
  have lsv: "length (stateVec u) = 2 ^ qubitCount u" using assms(1) by (simp add: inRange_def)
  have l: "lcv < 2 ^ qubitCount u" using assms(1,3) by (simp add: inRange_def)
  show ?thesis
    unfolding INC_stateVec_a [OF assms(1) conjunct1 [OF True] conjunct2 [OF True]] sel_upd
    by (rule scatter_regMove [OF assms(2) lsv l])
next
  case False
  then have z: "k mod 2 ^ len = 0 \<or> len = 0" by auto
  then have z': "k mod 2 ^ len = 0" by auto
  have l: "lcv < 2 ^ qubitCount u" using assms(1,3) by (simp add: inRange_def)
  show ?thesis
    by (simp only: INC_noop [OF z] regMove_id [OF l assms(2) z'])
qed

lemma DEC_moves:
  assumes "inRange u" "start + len \<le> qubitCount u" "lcv < maxQPower u"
  shows "stateVec (DEC k start len u) ! regMove (qubitCount u) start len (2 ^ len - k mod 2 ^ len) lcv
           = stateVec u ! lcv"
proof (cases "0 < len \<and> 0 < k mod 2 ^ len")
  case True
  have lsv: "length (stateVec u) = 2 ^ qubitCount u" using assms(1) by (simp add: inRange_def)
  have l: "lcv < 2 ^ qubitCount u" using assms(1,3) by (simp add: inRange_def)
  show ?thesis
    unfolding DEC_stateVec_a [OF assms(1) conjunct1 [OF True] conjunct2 [OF True]] sel_upd
    by (rule scatter_regMove [OF assms(2) lsv l])
next
  case False
  then have z: "k mod 2 ^ len = 0 \<or> len = 0" by auto
  then have z0: "k mod 2 ^ len = 0" by auto
  have z': "(2 ^ len - k mod 2 ^ len) mod 2 ^ len = (0::nat)" by (simp add: z0)
  have l: "lcv < 2 ^ qubitCount u" using assms(1,3) by (simp add: inRange_def)
  show ?thesis
    by (simp only: DEC_noop [OF z] regMove_id [OF l assms(2) z'])
qed

lemma fold_fill_nth:
  assumes "k < N"
  shows "fold (\<lambda>i ns. ns[i := g i]) [0..<N] (replicate N z) ! k = g k"
proof (rule fold_scatter_nth [where f = "\<lambda>i. i"])
  show "inj_on (\<lambda>i. i) (set [0..<N])" by simp
  show "distinct [0..<N]" by simp
  show "\<forall>i\<in>set [0..<N]. i < length (replicate N z)" by simp
  show "k \<in> set [0..<N]" using assms by simp
qed

lemma cohere_high_index:
  "drop_bit n (k AND push_bit n (push_bit m (1::nat) - 1)) = drop_bit n k AND (push_bit m (1::nat) - 1)"
proof -
  have m: "push_bit j (1::nat) - 1 = mask j" for j
    by (simp add: mask_eq_exp_minus_1)
  show ?thesis unfolding m
    by (rule bit_eqI) (auto simp: bit_simps)
qed

lemma NormalizeState_qubitCount: "qubitCount (NormalizeState u) = qubitCount u"
  by (simp add: NormalizeState_def Let_def)

lemma normalized_operand_qubitCount: "qubitCount (normalized_operand u) = qubitCount u"
  by (simp add: normalized_operand_def NormalizeState_qubitCount)

lemma Cohere_unfold:
  "Cohere self other =
     (UpdateRunningNorm
        ((normalized_operand self)\<lparr>qubitCount := qubitCount self + qubitCount other,
            maxQPower := 2 ^ (qubitCount self + qubitCount other),
            stateVec := fold (\<lambda>lcv nsv.
                 nsv[lcv := stateVec (normalized_operand self) ! (lcv AND (push_bit (qubitCount self) (1::nat) - 1))
                      * stateVec (normalized_operand other)
                          ! (drop_bit (qubitCount self) lcv AND (push_bit (qubitCount other) (1::nat) - 1))])
               [0..<2 ^ (qubitCount self + qubitCount other)]
               (replicate (2 ^ (qubitCount self + qubitCount other)) 0)\<rparr>),
      normalized_operand other)"
proof -
  have p: "push_bit j (1::nat) = 2 ^ j" for j by simp
  show ?thesis
    unfolding Cohere_def Let_def normalized_operand_def [symmetric]
      normalized_operand_qubitCount par_for_fold ResetStateVec_def cohere_high_index
    unfolding p
    by simp
qed

lemma fold_inplace_upt:
  assumes "n \<le> length sv0"
  shows "fold (\<lambda>i sv. sv[i := f (sv ! i)]) [0..<n] sv0 = map f (take n sv0) @ drop n sv0"
  using assms
proof (induction n)
  case 0
  then show ?case by simp
next
  case (Suc n)
  then have n: "n < length sv0" by simp
  have ih: "fold (\<lambda>i sv. sv[i := f (sv ! i)]) [0..<n] sv0 = map f (take n sv0) @ drop n sv0"
    using Suc by simp
  have l: "length (map f (take n sv0)) = n" using n by simp
  have d: "drop n sv0 = sv0 ! n # drop (Suc n) sv0"
    using n by (simp add: Cons_nth_drop_Suc)
  have "fold (\<lambda>i sv. sv[i := f (sv ! i)]) [0..<Suc n] sv0
        = (map f (take n sv0) @ drop n sv0)[n := f ((map f (take n sv0) @ drop n sv0) ! n)]"
    by (simp add: ih)
  also have "(map f (take n sv0) @ drop n sv0) ! n = sv0 ! n"
    using l d by (simp add: nth_append)
  also have "(map f (take n sv0) @ drop n sv0)[n := f (sv0 ! n)]
        = map f (take n sv0) @ (f (sv0 ! n) # drop (Suc n) sv0)"
    using l d by (simp add: list_update_append)
  also have "\<dots> = map f (take (Suc n) sv0) @ drop (Suc n) sv0"
    using n by (simp add: take_Suc_conv_app_nth)
  finally show ?case .
qed

lemma NormalizeState_nth:
  assumes "length (stateVec u) = maxQPower u" "i < maxQPower u"
  shows "stateVec (NormalizeState u) ! i
           = (let a = stateVec u ! i / complex_of_real (runningNorm u)
              in if norm_amp a < 1 / 10 ^ 15 then 0 else a)"
proof -
  let ?f = "\<lambda>z. (let a = z / complex_of_real (runningNorm u)
                  in if norm_amp a < 1 / 10 ^ 15 then 0 else a)"
  have "stateVec (NormalizeState u)
          = fold (\<lambda>lcv sv. sv[lcv := ?f (sv ! lcv)]) [0..<maxQPower u] (stateVec u)"
    by (simp add: NormalizeState_def par_for_fold Let_def)
  also have "\<dots> = map ?f (take (maxQPower u) (stateVec u)) @ drop (maxQPower u) (stateVec u)"
    by (rule fold_inplace_upt) (simp add: assms(1))
  also have "\<dots> = map ?f (stateVec u)" using assms(1) by simp
  finally have "stateVec (NormalizeState u) = map ?f (stateVec u)" .
  then show ?thesis using assms by simp
qed

lemma NormalizeState_runningNorm: "runningNorm (NormalizeState u) = 1"
  by (simp add: NormalizeState_def Let_def)

lemma normalized_operand_runningNorm: "runningNorm (normalized_operand u) = 1"
  by (simp add: normalized_operand_def NormalizeState_runningNorm)

lemma normalized_operand_nth:
  assumes "inRange u" "runningNorm u \<noteq> 1" "i < maxQPower u"
  shows "stateVec (normalized_operand u) ! i
           = (let a = stateVec u ! i / complex_of_real (runningNorm u)
              in if norm_amp a < 1 / 10 ^ 15 then 0 else a)"
proof -
  have l: "length (stateVec u) = maxQPower u" using assms(1) by (simp add: inRange_def)
  have "normalized_operand u = NormalizeState u"
    using assms(2) by (simp add: normalized_operand_def)
  then show ?thesis by (simp only: NormalizeState_nth [OF l assms(3)])
qed

lemmas eval4 = upt_4 replicate_4 list_update_4 nth_4 push_bit_eq_mult drop_bit_eq_div
  par_for_def par_for_inc_def Let_def mkUnit_def

lemma sqrt16: "sqrt 16 = 4"
  using real_sqrt_abs2 [of 4] by simp

lemma upt_1: "[0..<1] = [0::nat]"
  by code_simp

lemma upt_2: "[0..<2] = [0, 1::nat]"
  by code_simp

lemma list_update_2:
  "[a, b][0 := x] = [x, b]"
  "[a, b][1 := x] = [a, x]"
  by simp_all

lemma nth_2:
  "[a, b] ! 0 = a"
  "[a, b] ! 1 = b"
  by simp_all

lemmas eval2 = upt_1 upt_2 list_update_2 nth_2 nth_4 push_bit_eq_mult drop_bit_eq_div
  par_for_def par_for_inc_def Let_def mkUnit_def

lemma M_uniform2_false:
  "fst (M 1 (uniform2 (3/4) 0)) = False"
  "stateVec (snd (M 1 (uniform2 (3/4) 0))) ! 2 = 0"
  "fst (M 0 (uniform2 (3/4) 0)) = False"
  "stateVec (snd (M 0 (uniform2 (3/4) 0))) ! 1 = 0"
  by (simp_all add: M_def Prob_def Rand_def UpdateRunningNorm_def par_norm_def norm_amp_def
      uniform2_def tapeOf_def eval4 complex_eq_iff)

lemma uniform2_amplitudes:
  "stateVec (uniform2 d0 d1) ! 1 = 1/2"
  "stateVec (uniform2 d0 d1) ! 2 = 1/2"
  by (simp_all add: uniform2_def eval4)

lemma nibble_check: "(len div 4 * 4 \<noteq> len) = (len mod 4 \<noteq> (0::nat))"
  by presburger

lemma M_uniform2_true:
  "M 1 (uniform2 (1/4) 0)
     = (True, \<lparr>qubitCount = 2, maxQPower = 4, stateVec = [0, 0, 1, 1], runningNorm = sqrt 2,
          randTape = (\<lambda>n. 0)\<rparr>)"
  by (simp add: M_def Prob_def Rand_def UpdateRunningNorm_def par_norm_def norm_amp_def
      uniform2_def tapeOf_def eval4 complex_eq_iff)

lemma X_after_M_uniform2_true:
  "stateVec (X 1 \<lparr>qubitCount = 2, maxQPower = 4, stateVec = [0, 0, 1, 1], runningNorm = sqrt 2,
          randTape = (\<lambda>n. 0)\<rparr>) ! 2 = 0"
  by (simp add: X_def ApplySingleBit_def Apply2x2_def insertZero_def pauliX_def eval4 eval2
      complex_eq_iff)

lemma M_zero2: "M 1 zero2 = (False, \<lparr>qubitCount = 2, maxQPower = 4, stateVec = [1, 0, 0, 0],
     runningNorm = 1, randTape = (\<lambda>n. 0)\<rparr>)"
  by (simp add: M_def Prob_def Rand_def UpdateRunningNorm_def par_norm_def norm_amp_def
      zero2_def tapeOf_def eval4 complex_eq_iff)

lemma to_uchar_values:
  "to_uchar (9/2) = 4" "to_uchar (3/2) = 1" "to_uchar (7/2) = 3" "to_uchar (1/2) = 0"
  by (simp_all add: to_uchar_def)

lemma SetReg_zero2: "SetReg 1 1 0 zero2 = \<lparr>qubitCount = 2, maxQPower = 4, stateVec = [1, 0, 0, 0],
     runningNorm = 1, randTape = (\<lambda>n. 0)\<rparr>"
  unfolding SetReg_def SetBit_def M_zero2 by simp

lemma SuperposedLDA_zero2:
  "SuperposedLDA 0 1 1 1 [1, 0] 3 zero2
     = (4, \<lparr>qubitCount = 2, maxQPower = 4, stateVec = [0, 0, 1, 0],
            runningNorm = 1, randTape = (\<lambda>n. 0)\<rparr>)"
  "SuperposedLDA 0 1 1 1 [1, 0] 0 zero2
     = (1, \<lparr>qubitCount = 2, maxQPower = 4, stateVec = [0, 0, 1, 0],
            runningNorm = 1, randTape = (\<lambda>n. 0)\<rparr>)"
  unfolding SuperposedLDA_def SetReg_zero2
  by (simp_all add: par_for_skip_def ResetStateVec_def norm_amp_def eval4 eval2 to_uchar_values)

lemma SuperposedADC_zero2:
  "SuperposedADC 0 0 0 1 1 [1] 3 zero2
     = (4, \<lparr>qubitCount = 2, maxQPower = 4, stateVec = [0, 1, 0, 0],
            runningNorm = 1, randTape = (\<lambda>n. 0)\<rparr>)"
  "SuperposedADC 0 0 0 1 1 [1] 0 zero2
     = (1, \<lparr>qubitCount = 2, maxQPower = 4, stateVec = [0, 1, 0, 0],
            runningNorm = 1, randTape = (\<lambda>n. 0)\<rparr>)"
  unfolding SuperposedADC_def M_zero2
  by (simp_all add: par_for_skip_def ResetStateVec_def norm_amp_def eval4 eval2 to_uchar_values)

lemma SuperposedSBC_zero2:
  "SuperposedSBC 0 0 0 1 1 [1] 3 zero2
     = (3, \<lparr>qubitCount = 2, maxQPower = 4, stateVec = [1, 0, 0, 0],
            runningNorm = 1, randTape = (\<lambda>n. 0)\<rparr>)"
  "SuperposedSBC 0 0 0 1 1 [1] 0 zero2
     = (0, \<lparr>qubitCount = 2, maxQPower = 4, stateVec = [1, 0, 0, 0],
            runningNorm = 1, randTape = (\<lambda>n. 0)\<rparr>)"
  unfolding SuperposedSBC_def M_zero2
  by (simp_all add: par_for_skip_def ResetStateVec_def norm_amp_def eval4 eval2 to_uchar_values)

section \<open>The claims\<close>

text \<open>
  C1. The claim asks \<open>M\<close> to scale the surviving amplitudes by \<open>1 / sqrt q\<close>, with \<open>q\<close> the
  retained probability, and to return with \<open>runningNorm = 1\<close>. The branch for the result
  \<open>false\<close> does so (\<open>nrmlzr = sqrt (1.0 - oneChance)\<close>); the branch for the result \<open>true\<close>
  sets \<open>nrmlzr = oneChance\<close> without the square root. On two qubits in the uniform
  superposition, with the draws \<open>1/4\<close> (the sample) and \<open>0\<close> (the phase), \<open>M(0)\<close> returns
  \<open>true\<close> with \<open>Prob(0) = 1/2\<close>; the survivors are multiplied by \<open>1 / (1/2) = 2\<close> and become 1
  where the claim gives \<open>(1/2) / sqrt (1/2)\<close>, and \<open>runningNorm\<close> is \<open>sqrt 2\<close> on return.
\<close>

theorem M_true_branch_divides_by_probability:
  "M 0 (mkUnit 2 [1/2, 1/2, 1/2, 1/2] (\<lambda>n. if n = 0 then 1/4 else 0))
     = (True, \<lparr>qubitCount = 2, maxQPower = 4, stateVec = [0, 1, 0, 1], runningNorm = sqrt 2,
          randTape = (\<lambda>n. 0)\<rparr>)
   \<and> fst (Prob 0 (mkUnit 2 [1/2, 1/2, 1/2, 1/2] (\<lambda>n. if n = 0 then 1/4 else 0))) = 1/2
   \<and> sqrt 2 \<noteq> 1
   \<and> (1/2) / sqrt (1/2) \<noteq> (1::real)"
proof -
  have a: "M 0 (mkUnit 2 [1/2, 1/2, 1/2, 1/2] (\<lambda>n. if n = 0 then 1/4 else 0))
     = (True, \<lparr>qubitCount = 2, maxQPower = 4, stateVec = [0, 1, 0, 1], runningNorm = sqrt 2,
          randTape = (\<lambda>n. 0)\<rparr>)"
    by (simp add: M_def Prob_def Rand_def UpdateRunningNorm_def par_norm_def norm_amp_def eval4
        complex_eq_iff)
  have b: "fst (Prob 0 (mkUnit 2 [1/2, 1/2, 1/2, 1/2] (\<lambda>n. if n = 0 then 1/4 else 0))) = 1/2"
    by (simp add: Prob_def norm_amp_def eval4)
  have c: "sqrt 2 \<noteq> 1" by simp
  have d: "(1/2) / sqrt (1/2) \<noteq> (1::real)"
  proof
    assume h: "(1/2) / sqrt (1/2) = (1::real)"
    have p: "sqrt (1/2) > 0" by simp
    from h p have e: "sqrt (1/2) = 1/2"
      by (metis divide_eq_1_iff)
    have q: "sqrt (1/4) = 1/2"
      using real_sqrt_abs2 [of "1/2"] by simp
    have "sqrt (1/2) = sqrt (1/4)" by (rule trans [OF e q [symmetric]])
    then have "(1/2::real) = 1/4" by (simp only: real_sqrt_eq_iff)
    then show False by simp
  qed
  from a b c d show ?thesis by blast
qed

text \<open>
  C2. The claim asks that after \<open>MReg\<close> returns \<open>r\<close> every amplitude whose register value
  differs from \<open>r\<close> is zero, so that a second \<open>MReg\<close> returns \<open>r\<close> again. The collapse loop
  keeps an index when \<open>(lcv & resultPtr) == resultPtr\<close>, which holds for every index whose
  register bits include those of \<open>r\<close>, not only for the indices whose register equals
  \<open>r\<close>. On two qubits in the uniform superposition, with the draws \<open>1/8\<close> and \<open>0\<close>,
  \<open>MReg(0, 2)\<close> returns 0 and keeps all four amplitudes (scaled by \<open>1 / (1/4)\<close>); with the next
  draws \<open>3/10\<close> and \<open>0\<close> the repeated \<open>MReg(0, 2)\<close> returns 1.
\<close>

theorem MReg_keeps_supersets_of_result:
  "MReg 0 2 (mkUnit 2 [1/2, 1/2, 1/2, 1/2] (\<lambda>n. if n = 0 then 1/8 else if n = 2 then 3/10 else 0))
     = (0, \<lparr>qubitCount = 2, maxQPower = 4, stateVec = [2, 2, 2, 2], runningNorm = 4,
          randTape = (\<lambda>n. if n = 0 then 3/10 else 0)\<rparr>)
   \<and> fst (MReg 0 2 (snd (MReg 0 2
          (mkUnit 2 [1/2, 1/2, 1/2, 1/2] (\<lambda>n. if n = 0 then 1/8 else if n = 2 then 3/10 else 0)))))
       = 1"
proof -
  have a: "MReg 0 2 (mkUnit 2 [1/2, 1/2, 1/2, 1/2] (\<lambda>n. if n = 0 then 1/8 else if n = 2 then 3/10 else 0))
     = (0, \<lparr>qubitCount = 2, maxQPower = 4, stateVec = [2, 2, 2, 2], runningNorm = 4,
          randTape = (\<lambda>n. if n = 0 then 3/10 else 0)\<rparr>)"
    by (simp add: MReg_def Rand_def UpdateRunningNorm_def par_norm_def norm_amp_def eval4
        complex_eq_iff sqrt16)
  have b: "fst (MReg 0 2 \<lparr>qubitCount = 2, maxQPower = 4, stateVec = [2, 2, 2, 2], runningNorm = 4,
        randTape = (\<lambda>n. if n = 0 then 3/10 else 0)\<rparr>) = 1"
    by (simp add: MReg_def Rand_def UpdateRunningNorm_def NormalizeState_def par_norm_def
        norm_amp_def eval4 complex_eq_iff sqrt16)
  show ?thesis unfolding a using b by simp
qed

text \<open>
  C3. For two units in range whose qubit counts \<open>n\<close> and \<open>m\<close> add up to at most 30, after
  \<open>self.Cohere(other)\<close> the unit has \<open>n + m\<close> qubits and \<open>2 ^ (n + m)\<close> amplitudes, and the
  amplitude at every combined index \<open>k\<close> is
  \<open>self[k & ((1 << n) - 1)] * other[(k >> n) & ((1 << m) - 1)]\<close>. An operand whose
  \<open>runningNorm\<close> is 1 enters the product as it was before the call. An operand whose
  \<open>runningNorm\<close> is not 1 is normalized first: each of its amplitudes is divided by
  \<open>runningNorm\<close> (and set to 0 when the squared magnitude of the quotient is below
  \<open>1e-15\<close>) and its \<open>runningNorm\<close> becomes 1. \<open>other\<close> is left in that state.
\<close>

theorem Cohere_tensor_product:
  assumes "inRange self" "inRange other" "qubitCount self + qubitCount other \<le> 30"
  shows "qubitCount (fst (Cohere self other)) = qubitCount self + qubitCount other
   \<and> maxQPower (fst (Cohere self other)) = 2 ^ (qubitCount self + qubitCount other)
   \<and> length (stateVec (fst (Cohere self other))) = 2 ^ (qubitCount self + qubitCount other)
   \<and> (\<forall>k<2 ^ (qubitCount self + qubitCount other).
         stateVec (fst (Cohere self other)) ! k
           = stateVec (normalized_operand self) ! (k AND (push_bit (qubitCount self) (1::nat) - 1))
             * stateVec (normalized_operand other)
                 ! (drop_bit (qubitCount self) k AND (push_bit (qubitCount other) (1::nat) - 1)))
   \<and> snd (Cohere self other) = normalized_operand other
   \<and> (runningNorm self = 1 \<longrightarrow> normalized_operand self = self)
   \<and> (runningNorm other = 1 \<longrightarrow> normalized_operand other = other)
   \<and> (runningNorm self \<noteq> 1 \<longrightarrow>
         normalized_operand self = NormalizeState self
         \<and> runningNorm (normalized_operand self) = 1
         \<and> (\<forall>i<maxQPower self.
               stateVec (normalized_operand self) ! i
                 = (let a = stateVec self ! i / complex_of_real (runningNorm self)
                    in if norm_amp a < 1 / 10 ^ 15 then 0 else a)))
   \<and> (runningNorm other \<noteq> 1 \<longrightarrow>
         normalized_operand other = NormalizeState other
         \<and> runningNorm (normalized_operand other) = 1
         \<and> (\<forall>i<maxQPower other.
               stateVec (normalized_operand other) ! i
                 = (let a = stateVec other ! i / complex_of_real (runningNorm other)
                    in if norm_amp a < 1 / 10 ^ 15 then 0 else a)))"
proof -
  let ?N = "2 ^ (qubitCount self + qubitCount other) :: nat"
  let ?g = "\<lambda>lcv. stateVec (normalized_operand self) ! (lcv AND (push_bit (qubitCount self) (1::nat) - 1))
                      * stateVec (normalized_operand other)
                          ! (drop_bit (qubitCount self) lcv AND (push_bit (qubitCount other) (1::nat) - 1))"
  let ?sv = "fold (\<lambda>lcv nsv. nsv[lcv := ?g lcv]) [0..<?N] (replicate ?N 0)"
  have sv: "stateVec (fst (Cohere self other)) = ?sv"
    unfolding Cohere_unfold by (simp add: UpdateRunningNorm_def)
  have q: "qubitCount (fst (Cohere self other)) = qubitCount self + qubitCount other"
    unfolding Cohere_unfold by (simp add: UpdateRunningNorm_def)
  have mq: "maxQPower (fst (Cohere self other)) = ?N"
    unfolding Cohere_unfold by (simp add: UpdateRunningNorm_def)
  have len: "length (stateVec (fst (Cohere self other))) = ?N"
    unfolding sv by (simp only: fold_scatter_length length_replicate)
  have amp: "\<forall>k<?N. stateVec (fst (Cohere self other)) ! k = ?g k"
    unfolding sv using fold_fill_nth [of _ ?N ?g 0] by blast
  have other': "snd (Cohere self other) = normalized_operand other"
    unfolding Cohere_unfold by simp
  have n1: "(runningNorm self = 1 \<longrightarrow> normalized_operand self = self)
     \<and> (runningNorm other = 1 \<longrightarrow> normalized_operand other = other)"
    by (simp add: normalized_operand_def)
  have ns: "runningNorm self \<noteq> 1 \<longrightarrow>
         normalized_operand self = NormalizeState self
         \<and> runningNorm (normalized_operand self) = 1
         \<and> (\<forall>i<maxQPower self.
               stateVec (normalized_operand self) ! i
                 = (let a = stateVec self ! i / complex_of_real (runningNorm self)
                    in if norm_amp a < 1 / 10 ^ 15 then 0 else a))"
  proof (intro impI conjI allI)
    assume h: "runningNorm self \<noteq> 1"
    show "normalized_operand self = NormalizeState self"
      using h by (simp add: normalized_operand_def)
    show "runningNorm (normalized_operand self) = 1"
      by (rule normalized_operand_runningNorm)
    fix i assume i: "i < maxQPower self"
    show "stateVec (normalized_operand self) ! i
            = (let a = stateVec self ! i / complex_of_real (runningNorm self)
               in if norm_amp a < 1 / 10 ^ 15 then 0 else a)"
      by (rule normalized_operand_nth [OF assms(1) h i])
  qed
  have no: "runningNorm other \<noteq> 1 \<longrightarrow>
         normalized_operand other = NormalizeState other
         \<and> runningNorm (normalized_operand other) = 1
         \<and> (\<forall>i<maxQPower other.
               stateVec (normalized_operand other) ! i
                 = (let a = stateVec other ! i / complex_of_real (runningNorm other)
                    in if norm_amp a < 1 / 10 ^ 15 then 0 else a))"
  proof (intro impI conjI allI)
    assume h: "runningNorm other \<noteq> 1"
    show "normalized_operand other = NormalizeState other"
      using h by (simp add: normalized_operand_def)
    show "runningNorm (normalized_operand other) = 1"
      by (rule normalized_operand_runningNorm)
    fix i assume i: "i < maxQPower other"
    show "stateVec (normalized_operand other) ! i
            = (let a = stateVec other ! i / complex_of_real (runningNorm other)
               in if norm_amp a < 1 / 10 ^ 15 then 0 else a)"
      by (rule normalized_operand_nth [OF assms(2) h i])
  qed
  from q mq len amp other' n1 ns no show ?thesis by blast
qed

theorem Cohere_tensor_product_witness:
  "inRange scaled1 \<and> inRange (mkUnit 1 [0, 1] (tapeOf []))
   \<and> qubitCount scaled1 + qubitCount (mkUnit 1 [0, 1] (tapeOf [])) \<le> 30
   \<and> (2::nat) < 2 ^ (qubitCount scaled1 + qubitCount (mkUnit 1 [0, 1] (tapeOf [])))
   \<and> (0::nat) < maxQPower scaled1
   \<and> runningNorm scaled1 \<noteq> 1
   \<and> runningNorm (mkUnit 1 [0, 1] (tapeOf [])) = 1
   \<and> stateVec scaled1 ! 0 = 3
   \<and> qubitCount (fst (Cohere scaled1 (mkUnit 1 [0, 1] (tapeOf [])))) = 2
   \<and> stateVec (fst (Cohere scaled1 (mkUnit 1 [0, 1] (tapeOf [])))) ! 2 = 3/5"
proof -
  let ?t = "mkUnit 1 [0, 1] (tapeOf [])"
  have rs: "inRange scaled1" by (simp add: inRange_def scaled1_def)
  have rt: "inRange ?t" by (simp add: inRange_def mkUnit_def)
  have b: "qubitCount scaled1 + qubitCount ?t \<le> 30" by (simp add: scaled1_def mkUnit_def)
  have k: "(2::nat) < 2 ^ (qubitCount scaled1 + qubitCount ?t)"
    by (simp add: scaled1_def mkUnit_def)
  have i: "(0::nat) < maxQPower scaled1" by (simp add: scaled1_def)
  have ns: "runningNorm scaled1 \<noteq> 1" by (simp add: scaled1_def)
  have nt: "runningNorm ?t = 1" by (simp add: mkUnit_def)
  have a0: "stateVec scaled1 ! 0 = 3" by (simp add: scaled1_def)
  note th = Cohere_tensor_product [OF rs rt b]
  from th have q: "qubitCount (fst (Cohere scaled1 ?t)) = 2"
    by (simp add: scaled1_def mkUnit_def)
  from th nt have et: "normalized_operand ?t = ?t" by blast
  from th ns i have "stateVec (normalized_operand scaled1) ! 0
      = (let a = stateVec scaled1 ! 0 / complex_of_real (runningNorm scaled1)
         in if norm_amp a < 1 / 10 ^ 15 then 0 else a)"
    by blast
  then have es: "stateVec (normalized_operand scaled1) ! 0 = 3/5"
    by (simp add: scaled1_def norm_amp_def)
  from th k have "stateVec (fst (Cohere scaled1 ?t)) ! 2
      = stateVec (normalized_operand scaled1) ! (2 AND (push_bit (qubitCount scaled1) (1::nat) - 1))
        * stateVec (normalized_operand ?t)
            ! (drop_bit (qubitCount scaled1) 2 AND (push_bit (qubitCount ?t) (1::nat) - 1))"
    by blast
  also have "2 AND (push_bit (qubitCount scaled1) (1::nat) - 1) = 0"
    by (simp add: scaled1_def push_bit_eq_mult)
  also have "drop_bit (qubitCount scaled1) 2 AND (push_bit (qubitCount ?t) (1::nat) - 1) = 1"
    by (simp add: scaled1_def mkUnit_def push_bit_eq_mult drop_bit_eq_div)
  finally have a: "stateVec (fst (Cohere scaled1 ?t)) ! 2 = 3/5"
    unfolding es et by (simp add: mkUnit_def)
  from rs rt b k i ns nt a0 q a show ?thesis by blast
qed

text \<open>
  C4. On a unit whose vector has \<open>2 ^ qubitCount\<close> amplitudes and for a register
  \<open>[start, start + len)\<close> inside it, \<open>INC k\<close> followed by \<open>DEC k\<close> gives back the unit it
  started from, for every \<open>k\<close>. \<open>INC\<close> moves the amplitude of each basis index to the index
  with the same bits outside the register and register value \<open>(v + k) mod 2 ^ len\<close>; \<open>DEC\<close>
  moves it to the index with register value \<open>(v + 2 ^ len - k mod 2 ^ len) mod 2 ^ len\<close>, which
  is \<open>(v - k) mod 2 ^ len\<close> (lemma \<open>dec_value\<close>).
\<close>

theorem INC_DEC_roundtrip:
  assumes "inRange u" "start + len \<le> qubitCount u"
  shows "DEC k start len (INC k start len u) = u
     \<and> (\<forall>lcv<maxQPower u.
           stateVec (INC k start len u) ! regMove (qubitCount u) start len k lcv = stateVec u ! lcv)
     \<and> (\<forall>lcv<maxQPower u.
           stateVec (DEC k start len u) ! regMove (qubitCount u) start len (2 ^ len - k mod 2 ^ len) lcv
             = stateVec u ! lcv)"
  using DEC_INC_cancel [OF assms] INC_moves [OF assms] DEC_moves [OF assms] by blast

theorem INC_DEC_roundtrip_witness:
  "inRange (mkUnit 2 [1, 2, 3, 4] (\<lambda>n. 0)) \<and> 0 + 2 \<le> qubitCount (mkUnit 2 [1, 2, 3, 4] (\<lambda>n. 0))
   \<and> DEC 3 0 2 (INC 3 0 2 (mkUnit 2 [1, 2, 3, 4] (\<lambda>n. 0))) = mkUnit 2 [1, 2, 3, 4] (\<lambda>n. 0)
   \<and> stateVec (INC 3 0 2 (mkUnit 2 [1, 2, 3, 4] (\<lambda>n. 0))) = [2, 3, 4, 1]"
proof -
  have r: "inRange (mkUnit 2 [1, 2, 3, 4] (\<lambda>n. 0))"
    by (simp add: inRange_def mkUnit_def)
  have q: "0 + 2 \<le> qubitCount (mkUnit 2 [1, 2, 3, 4] (\<lambda>n. 0))"
    by (simp add: mkUnit_def)
  have e: "stateVec (INC 3 0 2 (mkUnit 2 [1, 2, 3, 4] (\<lambda>n. 0))) = [2, 3, 4, 1]"
    by (simp add: INC_def mkUnit_def Let_def par_for_def par_for_inc_def ResetStateVec_def
        upt_4 replicate_4 list_update_4 nth_4 push_bit_eq_mult drop_bit_eq_div)
  from INC_DEC_roundtrip [OF r q, of 3] r q e show ?thesis by blast
qed

text \<open>
  C5. The claim asks every dyadic rotation to call its radian counterpart with the angle
  \<open>(-\<pi> p 2) / q\<close>. \<open>RXDyad\<close>, \<open>RYDyad\<close>, \<open>RZDyad\<close> and the four controlled forms do so
  (the controlled forms after their own test of \<open>control = target\<close>, which the radian form
  repeats). \<open>RTDyad\<close> calls \<open>RT\<close> with \<open>(+\<pi> p 2) / q\<close>, although the note above it says that
  the sign is reversed: on one qubit in the state \<open>|1>\<close>, \<open>RTDyad(1, 2, 0)\<close> gives the amplitude
  \<open>i\<close> where \<open>RT(-\<pi>, 0)\<close> gives \<open>-i\<close>.
\<close>

theorem RTDyad_keeps_sign:
  "stateVec (RTDyad 1 2 0 (mkUnit 1 [0, 1] (\<lambda>n. 0))) = [0, \<i>]
   \<and> stateVec (RT ((- pi * 1 * 2) / 2) 0 (mkUnit 1 [0, 1] (\<lambda>n. 0))) = [0, - \<i>]
   \<and> RTDyad 1 2 0 (mkUnit 1 [0, 1] (\<lambda>n. 0)) \<noteq> RT ((- pi * 1 * 2) / 2) 0 (mkUnit 1 [0, 1] (\<lambda>n. 0))
   \<and> RTDyad p q qubit u = RT ((pi * of_int p * 2) / of_int q) qubit u
   \<and> RXDyad p q qubit u = RX ((- pi * of_int p * 2) / of_int q) qubit u
   \<and> RYDyad p q qubit u = RY ((- pi * of_int p * 2) / of_int q) qubit u
   \<and> RZDyad p q qubit u = RZ ((- pi * of_int p * 2) / of_int q) qubit u
   \<and> CRTDyad p q c t u = CRT ((- pi * of_int p * 2) / of_int q) c t u
   \<and> CRXDyad p q c t u = CRX ((- pi * of_int p * 2) / of_int q) c t u
   \<and> CRYDyad p q c t u = CRY ((- pi * of_int p * 2) / of_int q) c t u
   \<and> CRZDyad p q c t u = CRZ ((- pi * of_int p * 2) / of_int q) c t u"
proof -
  have a: "stateVec (RTDyad 1 2 0 (mkUnit 1 [0, 1] (\<lambda>n. 0))) = [0, \<i>]"
    by (simp add: RTDyad_def RT_def ApplySingleBit_def Apply2x2_def insertZero_def eval2
        complex_eq_iff)
  have b: "stateVec (RT ((- pi * 1 * 2) / 2) 0 (mkUnit 1 [0, 1] (\<lambda>n. 0))) = [0, - \<i>]"
    by (simp add: RT_def ApplySingleBit_def Apply2x2_def insertZero_def eval2 complex_eq_iff)
  have c: "RTDyad 1 2 0 (mkUnit 1 [0, 1] (\<lambda>n. 0)) \<noteq> RT ((- pi * 1 * 2) / 2) 0 (mkUnit 1 [0, 1] (\<lambda>n. 0))"
  proof
    assume "RTDyad 1 2 0 (mkUnit 1 [0, 1] (\<lambda>n. 0)) = RT ((- pi * 1 * 2) / 2) 0 (mkUnit 1 [0, 1] (\<lambda>n. 0))"
    then have "stateVec (RTDyad 1 2 0 (mkUnit 1 [0, 1] (\<lambda>n. 0)))
        = stateVec (RT ((- pi * 1 * 2) / 2) 0 (mkUnit 1 [0, 1] (\<lambda>n. 0)))"
      by (rule arg_cong)
    then have "[0, \<i>] = [0, - \<i>]" unfolding a b .
    then show False by (simp add: complex_eq_iff)
  qed
  have d: "CRTDyad p q c t u = CRT ((- pi * of_int p * 2) / of_int q) c t u"
    "CRXDyad p q c t u = CRX ((- pi * of_int p * 2) / of_int q) c t u"
    "CRYDyad p q c t u = CRY ((- pi * of_int p * 2) / of_int q) c t u"
    "CRZDyad p q c t u = CRZ ((- pi * of_int p * 2) / of_int q) c t u"
    by (simp_all add: CRTDyad_def CRT_def CRXDyad_def CRX_def CRYDyad_def CRY_def CRZDyad_def CRZ_def)
  from a b c d show ?thesis
    by (simp only: RTDyad_def RXDyad_def RYDyad_def RZDyad_def simp_thms)
qed

text \<open>
  C6 as stated fails for \<open>XOR\<close>. With the three bits equal, \<open>XOR\<close> calls
  \<open>SetBit(outputBit, false)\<close>, which measures the bit: on two qubits in the uniform
  superposition (draws \<open>3/4\<close> and \<open>0\<close>) the amplitude at index 1 goes from \<open>1/2\<close> to 0. With
  one input equal to the output, \<open>XOR\<close> applies \<open>CNOT\<close> from the other input and raises
  nothing.
\<close>

theorem XOR_gate_aliasing_counterexample:
  "stateVec (snd (projr (XOR_gate 0 0 0 (uniform2 (3/4) 0)))) ! 1 = 0
   \<and> stateVec (uniform2 (3/4) 0) ! 1 = 1/2
   \<and> XOR_gate 0 0 0 (uniform2 (3/4) 0) \<noteq> Inr ((), uniform2 (3/4) 0)
   \<and> \<not> isl (XOR_gate 0 1 0 (uniform2 (3/4) 0))
   \<and> \<not> isl (XOR_gate 1 0 0 (uniform2 (3/4) 0))"
proof -
  have x: "XOR_gate 0 0 0 (uniform2 (3/4) 0) = Inr ((), snd (M 0 (uniform2 (3/4) 0)))"
    by (simp add: XOR_gate_def SetBit_def return_def case_prod_beta M_uniform2_false)
  have a: "stateVec (snd (projr (XOR_gate 0 0 0 (uniform2 (3/4) 0)))) ! 1 = 0"
    unfolding x sum.sel snd_conv by (rule M_uniform2_false)
  have b: "stateVec (uniform2 (3/4) 0) ! 1 = 1/2" by (rule uniform2_amplitudes)
  have c: "XOR_gate 0 0 0 (uniform2 (3/4) 0) \<noteq> Inr ((), uniform2 (3/4) 0)"
  proof
    assume "XOR_gate 0 0 0 (uniform2 (3/4) 0) = Inr ((), uniform2 (3/4) 0)"
    then have "stateVec (snd (projr (XOR_gate 0 0 0 (uniform2 (3/4) 0)))) ! 1
        = stateVec (snd (projr (Inr ((), uniform2 (3/4) 0) :: unit outcome))) ! 1"
      by (rule arg_cong)
    then have "(0::complex) = 1/2" unfolding a sum.sel snd_conv b .
    then show False by simp
  qed
  have d: "\<not> isl (XOR_gate 0 1 0 (uniform2 (3/4) 0))" "\<not> isl (XOR_gate 1 0 0 (uniform2 (3/4) 0))"
    by (simp_all add: XOR_gate_def CNOT_def return_def)
  from a b c d show ?thesis by blast
qed

text \<open>
  C6, amended. For \<open>AND\<close> and \<open>OR\<close> on single bits: with
  \<open>inputBit1 = inputBit2 = outputBit\<close> the call returns without touching the unit, and with
  any other overlap of an input bit and the output bit it throws \<open>InvalidArgument\<close> and the
  unit is as before the call. \<open>XOR\<close> does not reject aliasing: with the three bits equal it
  is \<open>SetBit(outputBit, false)\<close>, and with exactly one input equal to the output it is the
  \<open>CNOT\<close> from the other input onto the output, which returns normally.
\<close>

theorem logic_gate_aliasing:
  "AND_gate a a a u = Inr ((), u)
   \<and> OR_gate a a a u = Inr ((), u)
   \<and> ((a = c \<or> b = c) \<and> \<not> (a = b \<and> b = c) \<longrightarrow>
         AND_gate a b c u = Inl (InvalidArgument, u) \<and> OR_gate a b c u = Inl (InvalidArgument, u))
   \<and> XOR_gate a a a u = Inr ((), SetBit a False u)
   \<and> (a \<noteq> b \<longrightarrow>
         XOR_gate a b a u = Inr ((), ApplyControlled2x2 b a pauliX False u)
         \<and> XOR_gate b a a u = Inr ((), ApplyControlled2x2 b a pauliX False u))"
  by (auto simp: AND_gate_def OR_gate_def XOR_gate_def CNOT_def throw_def return_def)

theorem logic_gate_aliasing_witness:
  "((0::nat) = 0 \<or> (1::nat) = 0) \<and> \<not> ((0::nat) = 1 \<and> (1::nat) = 0)
   \<and> AND_gate 0 1 0 (uniform2 (3/4) 0) = Inl (InvalidArgument, uniform2 (3/4) 0)
   \<and> OR_gate 0 1 0 (uniform2 (3/4) 0) = Inl (InvalidArgument, uniform2 (3/4) 0)
   \<and> AND_gate 0 0 0 (uniform2 (3/4) 0) = Inr ((), uniform2 (3/4) 0)
   \<and> (0::nat) \<noteq> 1
   \<and> XOR_gate 0 1 0 (uniform2 (3/4) 0)
       = Inr ((), ApplyControlled2x2 1 0 pauliX False (uniform2 (3/4) 0))"
  using logic_gate_aliasing [of 0 "uniform2 (3/4) 0" 0 1]
    logic_gate_aliasing [of 0 "uniform2 (3/4) 0" 0 0]
  by simp

text \<open>
  C7. \<open>INCBCD\<close>, \<open>DECBCD\<close>, \<open>INCBCDC\<close> and \<open>DECBCDC\<close> throw \<open>InvalidArgument\<close> when the
  length is not a multiple of 4, and return normally when it is.
\<close>

theorem BCD_length_check:
  "(len mod 4 \<noteq> 0 \<longrightarrow>
      isl (INCBCD k start len u) \<and> fst (projl (INCBCD k start len u)) = InvalidArgument
      \<and> isl (DECBCD k start len u) \<and> fst (projl (DECBCD k start len u)) = InvalidArgument
      \<and> isl (INCBCDC k start len c u) \<and> fst (projl (INCBCDC k start len c u)) = InvalidArgument
      \<and> isl (DECBCDC k start len c u) \<and> fst (projl (DECBCDC k start len c u)) = InvalidArgument)
   \<and> (len mod 4 = 0 \<longrightarrow>
      \<not> isl (INCBCD k start len u) \<and> \<not> isl (DECBCD k start len u)
      \<and> \<not> isl (INCBCDC k start len c u) \<and> \<not> isl (DECBCDC k start len c u))"
proof -
  have a: "len mod 4 \<noteq> 0 \<Longrightarrow> isl (INCBCD k start len u) \<and> fst (projl (INCBCD k start len u)) = InvalidArgument"
    unfolding INCBCD_def Let_def nibble_check by (simp add: throw_def)
  have b: "len mod 4 \<noteq> 0 \<Longrightarrow> isl (DECBCD k start len u) \<and> fst (projl (DECBCD k start len u)) = InvalidArgument"
    unfolding DECBCD_def Let_def nibble_check by (simp add: throw_def)
  have c: "len mod 4 \<noteq> 0 \<Longrightarrow> isl (INCBCDC k start len c u) \<and> fst (projl (INCBCDC k start len c u)) = InvalidArgument"
    unfolding INCBCDC_def Let_def nibble_check by (simp add: throw_def split: prod.splits)
  have d: "len mod 4 \<noteq> 0 \<Longrightarrow> isl (DECBCDC k start len c u) \<and> fst (projl (DECBCDC k start len c u)) = InvalidArgument"
    unfolding DECBCDC_def Let_def nibble_check by (simp add: throw_def split: prod.splits)
  have a': "len mod 4 = 0 \<Longrightarrow> \<not> isl (INCBCD k start len u)"
    unfolding INCBCD_def Let_def nibble_check by (simp add: return_def)
  have b': "len mod 4 = 0 \<Longrightarrow> \<not> isl (DECBCD k start len u)"
    unfolding DECBCD_def Let_def nibble_check by (simp add: return_def)
  have c': "len mod 4 = 0 \<Longrightarrow> \<not> isl (INCBCDC k start len c u)"
    unfolding INCBCDC_def Let_def nibble_check by (simp add: return_def split: prod.splits)
  have d': "len mod 4 = 0 \<Longrightarrow> \<not> isl (DECBCDC k start len c u)"
    unfolding DECBCDC_def Let_def nibble_check by (simp add: return_def split: prod.splits)
  show ?thesis
  proof (intro conjI impI)
    assume h: "len mod 4 \<noteq> 0"
    show "isl (INCBCD k start len u)" "fst (projl (INCBCD k start len u)) = InvalidArgument"
      using a [OF h] by simp_all
    show "isl (DECBCD k start len u)" "fst (projl (DECBCD k start len u)) = InvalidArgument"
      using b [OF h] by simp_all
    show "isl (INCBCDC k start len c u)" "fst (projl (INCBCDC k start len c u)) = InvalidArgument"
      using c [OF h] by simp_all
    show "isl (DECBCDC k start len c u)" "fst (projl (DECBCDC k start len c u)) = InvalidArgument"
      using d [OF h] by simp_all
  next
    assume h: "len mod 4 = 0"
    show "\<not> isl (INCBCD k start len u)" by (rule a' [OF h])
    show "\<not> isl (DECBCD k start len u)" by (rule b' [OF h])
    show "\<not> isl (INCBCDC k start len c u)" by (rule c' [OF h])
    show "\<not> isl (DECBCDC k start len c u)" by (rule d' [OF h])
  qed
qed

theorem BCD_length_check_witness:
  "(6::nat) mod 4 \<noteq> 0 \<and> (8::nat) mod 4 = 0
   \<and> isl (INCBCD 1 0 6 (uniform2 (3/4) 0))
   \<and> fst (projl (DECBCDC 1 0 6 1 (uniform2 (3/4) 0))) = InvalidArgument
   \<and> \<not> isl (INCBCD 1 0 8 (mkUnit 8 (replicate 256 0) (tapeOf [])))
   \<and> \<not> isl (DECBCDC 1 0 8 8 (mkUnit 9 (replicate 512 0) (tapeOf [])))"
  using BCD_length_check [of 6 1 0 "uniform2 (3/4) 0" 1]
    BCD_length_check [of 8 1 0 "mkUnit 8 (replicate 256 0) (tapeOf [])" 8]
    BCD_length_check [of 8 1 0 "mkUnit 9 (replicate 512 0) (tapeOf [])" 8]
  by simp

text \<open>
  C8. The claim asks each of \<open>SuperposedLDA\<close>, \<open>SuperposedADC\<close> and \<open>SuperposedSBC\<close> to
  return the expectation value of the value register over the state after the operation,
  rounded to a byte. Each of them accumulates it into \<open>average\<close>, which the source never
  initializes, so the value returned is the rounded sum of the expectation and of whatever
  \<open>average\<close> held. On two qubits in \<open>|00>\<close>, the load of the table \<open>[1, 0]\<close> (index qubit 0,
  value qubit 1) leaves the value register at 1 with probability 1, and so does the
  addition of the table \<open>[1]\<close> into value qubit 0 with carry qubit 1; the subtraction of the
  same table leaves it at 0. With 3 in \<open>average\<close> the calls return 4, 4 and 3; only with 0
  there do they return the expectation values 1, 1 and 0.
\<close>

theorem Superposed_average_uninitialized:
  "fst (SuperposedLDA 0 1 1 1 [1, 0] 3 zero2) = 4
   \<and> stateVec (snd (SuperposedLDA 0 1 1 1 [1, 0] 3 zero2)) = [0, 0, 1, 0]
   \<and> fst (SuperposedLDA 0 1 1 1 [1, 0] 0 zero2) = 1
   \<and> fst (SuperposedADC 0 0 0 1 1 [1] 3 zero2) = 4
   \<and> stateVec (snd (SuperposedADC 0 0 0 1 1 [1] 3 zero2)) = [0, 1, 0, 0]
   \<and> fst (SuperposedADC 0 0 0 1 1 [1] 0 zero2) = 1
   \<and> fst (SuperposedSBC 0 0 0 1 1 [1] 3 zero2) = 3
   \<and> stateVec (snd (SuperposedSBC 0 0 0 1 1 [1] 3 zero2)) = [1, 0, 0, 0]
   \<and> fst (SuperposedSBC 0 0 0 1 1 [1] 0 zero2) = 0"
  unfolding SuperposedLDA_zero2 SuperposedADC_zero2 SuperposedSBC_zero2 by simp

text \<open>
  C9. When \<open>INCBCDC\<close> or \<open>DECBCDC\<close> is called with a length that is not a multiple of 4,
  the exception leaves the unit as it is after the measurement of the carry qubit and, when
  the carry was set, after its reset with \<open>X\<close>; this is not the unit before the call. On two
  qubits in the uniform superposition (draws \<open>3/4\<close> and \<open>0\<close>), with the carry at qubit 1 and
  length 1, the amplitude at index 2 is \<open>1/2\<close> before the call and 0 when the exception
  propagates. With the draws \<open>1/4\<close> and \<open>0\<close> the carry is measured as set and is reset with
  \<open>X\<close> before the exception; the amplitude at index 2 is 0 then as well.
\<close>

theorem BCDC_throws_after_carry_measurement:
  "(len mod 4 \<noteq> 0 \<longrightarrow>
      INCBCDC k start len c u
        = Inl (InvalidArgument, if fst (M c u) then X c (snd (M c u)) else snd (M c u))
      \<and> DECBCDC k start len c u
        = Inl (InvalidArgument, if fst (M c u) then X c (snd (M c u)) else snd (M c u)))
   \<and> stateVec (snd (projl (INCBCDC 1 0 1 1 (uniform2 (3/4) 0)))) ! 2 = 0
   \<and> stateVec (snd (projl (DECBCDC 1 0 1 1 (uniform2 (3/4) 0)))) ! 2 = 0
   \<and> stateVec (uniform2 (3/4) 0) ! 2 = 1/2
   \<and> fst (M 1 (uniform2 (1/4) 0)) = True
   \<and> stateVec (snd (projl (INCBCDC 1 0 1 1 (uniform2 (1/4) 0)))) ! 2 = 0
   \<and> stateVec (snd (projl (DECBCDC 1 0 1 1 (uniform2 (1/4) 0)))) ! 2 = 0
   \<and> stateVec (uniform2 (1/4) 0) ! 2 = 1/2"
proof -
  have a: "len mod 4 \<noteq> 0 \<Longrightarrow> INCBCDC k start len c u
        = Inl (InvalidArgument, if fst (M c u) then X c (snd (M c u)) else snd (M c u))"
    for len k start c u
    unfolding INCBCDC_def Let_def nibble_check by (simp add: throw_def case_prod_beta)
  have b: "len mod 4 \<noteq> 0 \<Longrightarrow> DECBCDC k start len c u
        = Inl (InvalidArgument, if fst (M c u) then X c (snd (M c u)) else snd (M c u))"
    for len k start c u
    unfolding DECBCDC_def Let_def nibble_check by (simp add: throw_def case_prod_beta)
  have l: "(1::nat) mod 4 \<noteq> 0" by simp
  have e: "stateVec (snd (projl (INCBCDC 1 0 1 1 (uniform2 (3/4) 0)))) ! 2 = 0"
    unfolding a [OF l] sum.sel snd_conv M_uniform2_false if_False by (rule refl)
  have f: "stateVec (snd (projl (DECBCDC 1 0 1 1 (uniform2 (3/4) 0)))) ! 2 = 0"
    unfolding b [OF l] sum.sel snd_conv M_uniform2_false if_False by (rule refl)
  have g: "stateVec (uniform2 (3/4) 0) ! 2 = 1/2" by (rule uniform2_amplitudes)
  have m: "fst (M 1 (uniform2 (1/4) 0)) = True" unfolding M_uniform2_true by simp
  have e': "stateVec (snd (projl (INCBCDC 1 0 1 1 (uniform2 (1/4) 0)))) ! 2 = 0"
    unfolding a [OF l] sum.sel snd_conv M_uniform2_true fst_conv if_True
    by (rule X_after_M_uniform2_true)
  have f': "stateVec (snd (projl (DECBCDC 1 0 1 1 (uniform2 (1/4) 0)))) ! 2 = 0"
    unfolding b [OF l] sum.sel snd_conv M_uniform2_true fst_conv if_True
    by (rule X_after_M_uniform2_true)
  have g': "stateVec (uniform2 (1/4) 0) ! 2 = 1/2" by (rule uniform2_amplitudes)
  from a [of len k start c u] b [of len k start c u] e f g m e' f' g' show ?thesis by simp
qed

theorem BCDC_throws_after_carry_measurement_witness:
  "(3::nat) mod 4 \<noteq> 0
   \<and> INCBCDC 5 0 3 1 (uniform2 (3/4) 0)
       = Inl (InvalidArgument, if fst (M 1 (uniform2 (3/4) 0)) then X 1 (snd (M 1 (uniform2 (3/4) 0)))
                               else snd (M 1 (uniform2 (3/4) 0)))
   \<and> fst (M 1 (uniform2 (3/4) 0)) = False
   \<and> stateVec (snd (M 1 (uniform2 (3/4) 0))) ! 2 = 0
   \<and> stateVec (uniform2 (3/4) 0) ! 2 = 1/2"
proof -
  have l: "(3::nat) mod 4 \<noteq> 0" by simp
  from BCDC_throws_after_carry_measurement [of 3 5 0 1 "uniform2 (3/4) 0"] l
  have "INCBCDC 5 0 3 1 (uniform2 (3/4) 0)
       = Inl (InvalidArgument, if fst (M 1 (uniform2 (3/4) 0)) then X 1 (snd (M 1 (uniform2 (3/4) 0)))
                               else snd (M 1 (uniform2 (3/4) 0)))"
    by blast
  with l M_uniform2_false(1,2) uniform2_amplitudes(2) [of "3/4" 0] show ?thesis by blast
qed

text \<open>
  C10. For a register length up to 30 (where \<open>1 << length\<close> is \<open>2 ^ length\<close> on the
  machine), an \<open>INC\<close> whose addend is a multiple of \<open>2 ^ length\<close>, or whose register has
  length 0, returns the unit exactly as it received it: every amplitude, inside and outside
  the register, is the one before the call. The same holds for \<open>DEC\<close>.
\<close>

theorem INC_DEC_zero_frame:
  assumes "len \<le> 30" "k mod 2 ^ len = 0 \<or> len = 0"
  shows "INC k start len u = u \<and> DEC k start len u = u"
  using assms(2) by (auto simp: INC_def DEC_def Let_def)

theorem INC_DEC_zero_frame_witness:
  "(2::nat) \<le> 30 \<and> ((4::nat) mod 2 ^ 2 = 0 \<or> (2::nat) = 0)
   \<and> INC 4 0 2 (mkUnit 2 [0, 1, 0, 0] (tapeOf [])) = mkUnit 2 [0, 1, 0, 0] (tapeOf [])
   \<and> DEC 4 0 2 (mkUnit 2 [0, 1, 0, 0] (tapeOf [])) = mkUnit 2 [0, 1, 0, 0] (tapeOf [])"
  using INC_DEC_zero_frame [of 2 4 0 "mkUnit 2 [0, 1, 0, 0] (tapeOf [])"]
  by simp

end
